theory Spec2Isabelle
  imports Main
begin

section \<open>Extension resolution of the Markdown markup (markups/markdown.py)\<close>

text \<open>
  The module resolves the Markdown extensions of a document: it scans the first line of
  the text for a directive, splits each token into a name and a configuration with
  Python's \<^verbatim>\<open>ast\<close> module, canonicalizes the name by importing candidate modules,
  and accumulates a set of names and a dictionary of configurations.

  Python strings are modelled as \<^typ>\<open>string\<close>, that is, for texts whose characters are
  below code point 256. Exceptions are values of \<open>exn\<close>; a subclass is identified with
  the base class that an \<^verbatim>\<open>except\<close> clause of the module names
  (\<^verbatim>\<open>ModuleNotFoundError\<close> is an \<open>ImportError\<close>).
\<close>

subsection \<open>Exceptions and the Python collaborators\<close>

text \<open>A warning passed to \<^verbatim>\<open>warnings.warn\<close>: its category and its message.\<close>

datatype warning = ImportWarning string

text \<open>\<open>WarningRaised\<close> is a warning that the warning filters turn into an exception.\<close>

datatype exn =
    ImportError | ValueError | TypeError | SyntaxError | IndexError | AttributeError
  | OverflowError | WarningRaised warning | OtherException string

text \<open>A loaded module, as far as the code looks at it: \<^verbatim>\<open>hasattr(module, 'makeExtension')\<close>.\<close>

datatype py_module = Module (has_makeExtension: bool)

subsection \<open>The syntax trees of Python's \<^verbatim>\<open>ast\<close> module\<close>

text \<open>
  A Python \<^verbatim>\<open>float\<close> is kept abstract: the module never computes with one, and the only
  arithmetic on numbers (inside \<^verbatim>\<open>ast.literal_eval\<close>) is delegated to the environment.
\<close>

typedecl pyfloat

datatype pyconst =
    CNone | CBool bool | CInt int | CFloat pyfloat | CComplex pyfloat pyfloat
  | CStr string | CBytes string | CEllipsis

datatype unaryop = UAdd | USub | NotOp | Invert

datatype operator = Add | Sub | OtherOperator

text \<open>
  The expression nodes that \<^verbatim>\<open>_split_extension_config\<close> and \<^verbatim>\<open>ast.literal_eval\<close>
  tell apart. A keyword of a call is a pair of its \<^verbatim>\<open>arg\<close> (\<open>None\<close> for
  \<^verbatim>\<open>**mapping\<close>) and its \<^verbatim>\<open>value\<close>; the keys of a \<^verbatim>\<open>Dict\<close> node are optional for
  the same reason. \<open>OtherExpr\<close> stands for every other node class (subscripts, lambdas,
  comparisons, starred arguments, ...): none of them has an \<^verbatim>\<open>id\<close> or an \<^verbatim>\<open>attr\<close> field.
\<close>

datatype expr =
    Name string
  | Attribute expr string
  | Call expr "expr list" "(string option \<times> expr) list"
  | Constant pyconst
  | Tuple "expr list"
  | ListE "expr list"
  | SetE "expr list"
  | Dict "expr option list" "expr list"
  | UnaryOp unaryop expr
  | BinOp expr operator expr
  | OtherExpr

text \<open>
  A statement of the parsed module body: an expression statement, any other statement
  class with a \<^verbatim>\<open>value\<close> field (assignments, \<^verbatim>\<open>return\<close>; the value may be absent), or a
  statement without such a field.
\<close>

datatype stmt = Expr expr | ValueStmt "expr option" | OtherStmt

text \<open>The values that \<^verbatim>\<open>ast.literal_eval\<close> builds. A set or dictionary value carries the
  converted elements in source order.\<close>

datatype pyvalue =
    VConst pyconst
  | VTuple "pyvalue list"
  | VList "pyvalue list"
  | VSet "pyvalue list"
  | VDict "(pyvalue \<times> pyvalue) list"

text \<open>
  The environment of the module: the parser \<^verbatim>\<open>ast.parse\<close>, the module loader
  \<^verbatim>\<open>importlib.import_module\<close> (the set of installed modules is fixed for the process),
  Python's arithmetic on the numbers of a literal, and the warning filters of the
  process: \<open>filter_raises\<close> holds of a warning when the filter that applies to it has the
  action \<^verbatim>\<open>error\<close>, so that \<^verbatim>\<open>warnings.warn\<close> raises the warning instead of returning.
\<close>

record env =
  ast_parse :: "string \<Rightarrow> exn + stmt list"
  import_module :: "string \<Rightarrow> exn + py_module"
  float_neg :: "pyfloat \<Rightarrow> pyfloat"
  num_add :: "pyconst \<Rightarrow> pyconst \<Rightarrow> exn + pyconst"
  num_sub :: "pyconst \<Rightarrow> pyconst \<Rightarrow> exn + pyconst"
  filter_raises :: "warning \<Rightarrow> bool"

subsection \<open>\<^verbatim>\<open>ast.literal_eval\<close> on a node (CPython's \<^verbatim>\<open>Lib/ast.py\<close>)\<close>

fun convert_num :: "expr \<Rightarrow> exn + pyconst" where
  "convert_num (Constant (CInt i)) = Inr (CInt i)"
| "convert_num (Constant (CFloat f)) = Inr (CFloat f)"
| "convert_num (Constant (CComplex re im)) = Inr (CComplex re im)"
| "convert_num _ = Inl ValueError"

fun negate :: "env \<Rightarrow> pyconst \<Rightarrow> pyconst" where
  "negate E (CInt i) = CInt (- i)"
| "negate E (CFloat f) = CFloat (float_neg E f)"
| "negate E (CComplex re im) = CComplex (float_neg E re) (float_neg E im)"
| "negate E c = c"

fun convert_signed_num :: "env \<Rightarrow> expr \<Rightarrow> exn + pyconst" where
  "convert_signed_num E (UnaryOp UAdd operand) = convert_num operand"
| "convert_signed_num E (UnaryOp USub operand) =
     (case convert_num operand of Inl e \<Rightarrow> Inl e | Inr c \<Rightarrow> Inr (negate E c))"
| "convert_signed_num E node = convert_num node"

fun is_int_or_float :: "pyconst \<Rightarrow> bool" where
  "is_int_or_float (CInt i) = True"
| "is_int_or_float (CFloat f) = True"
| "is_int_or_float _ = False"

fun is_complex :: "pyconst \<Rightarrow> bool" where
  "is_complex (CComplex re im) = True"
| "is_complex _ = False"

fun hashable :: "pyvalue \<Rightarrow> bool" where
  "hashable (VConst c) = True"
| "hashable (VTuple vs) = list_all hashable vs"
| "hashable (VList vs) = False"
| "hashable (VSet vs) = False"
| "hashable (VDict kvs) = False"

text \<open>
  \<open>convert\<close> is the inner function \<^verbatim>\<open>_convert\<close>. The helpers run its iterators:
  \<open>convert_elts\<close> is \<^verbatim>\<open>map(_convert, elts)\<close> consumed by \<^verbatim>\<open>tuple\<close> or \<^verbatim>\<open>list\<close>,
  \<open>convert_set_elts\<close> the same consumed by \<^verbatim>\<open>set\<close> (each element is hashed as it
  arrives), \<open>convert_items\<close> is \<^verbatim>\<open>dict(zip(map(_convert, keys), map(_convert, values)))\<close>
  (key, then value, then the insertion that hashes the key).
\<close>

function convert :: "env \<Rightarrow> expr \<Rightarrow> exn + pyvalue"
  and convert_elts :: "env \<Rightarrow> expr list \<Rightarrow> exn + pyvalue list"
  and convert_set_elts :: "env \<Rightarrow> expr list \<Rightarrow> exn + pyvalue list"
  and convert_items :: "env \<Rightarrow> expr option list \<Rightarrow> expr list \<Rightarrow> exn + (pyvalue \<times> pyvalue) list"
where
  "convert E (Constant c) = Inr (VConst c)"
| "convert E (Tuple elts) =
     (case convert_elts E elts of Inl e \<Rightarrow> Inl e | Inr vs \<Rightarrow> Inr (VTuple vs))"
| "convert E (ListE elts) =
     (case convert_elts E elts of Inl e \<Rightarrow> Inl e | Inr vs \<Rightarrow> Inr (VList vs))"
| "convert E (SetE elts) =
     (case convert_set_elts E elts of Inl e \<Rightarrow> Inl e | Inr vs \<Rightarrow> Inr (VSet vs))"
| "convert E (Call func args keywords) =
     (if func = Name ''set'' \<and> args = [] \<and> keywords = [] then Inr (VSet [])
      else Inl ValueError)"
| "convert E (Dict keys vals) =
     (if length keys \<noteq> length vals then Inl ValueError
      else case convert_items E keys vals of Inl e \<Rightarrow> Inl e | Inr kvs \<Rightarrow> Inr (VDict kvs))"
| "convert E (BinOp left op right) =
     (if op = Add \<or> op = Sub then
        (case convert_signed_num E left of
           Inl e \<Rightarrow> Inl e
         | Inr l \<Rightarrow>
            (case convert_num right of
               Inl e \<Rightarrow> Inl e
             | Inr r \<Rightarrow>
                (if is_int_or_float l \<and> is_complex r then
                   (case (if op = Add then num_add E l r else num_sub E l r) of
                      Inl e \<Rightarrow> Inl e
                    | Inr c \<Rightarrow> Inr (VConst c))
                 else Inl ValueError)))
      else Inl ValueError)"
| "convert E (UnaryOp op operand) =
     (case convert_signed_num E (UnaryOp op operand) of
        Inl e \<Rightarrow> Inl e
      | Inr c \<Rightarrow> Inr (VConst c))"
| "convert E (Name ident) = Inl ValueError"
| "convert E (Attribute v a) = Inl ValueError"
| "convert E OtherExpr = Inl ValueError"
| "convert_elts E [] = Inr []"
| "convert_elts E (x # xs) =
     (case convert E x of
        Inl e \<Rightarrow> Inl e
      | Inr v \<Rightarrow> (case convert_elts E xs of Inl e \<Rightarrow> Inl e | Inr vs \<Rightarrow> Inr (v # vs)))"
| "convert_set_elts E [] = Inr []"
| "convert_set_elts E (x # xs) =
     (case convert E x of
        Inl e \<Rightarrow> Inl e
      | Inr v \<Rightarrow>
         (if \<not> hashable v then Inl TypeError
          else case convert_set_elts E xs of Inl e \<Rightarrow> Inl e | Inr vs \<Rightarrow> Inr (v # vs)))"
| "convert_items E (k # ks) (x # xs) =
     (case k of
        None \<Rightarrow> Inl ValueError
      | Some key \<Rightarrow>
         (case convert E key of
            Inl e \<Rightarrow> Inl e
          | Inr kv \<Rightarrow>
             (case convert E x of
                Inl e \<Rightarrow> Inl e
              | Inr v \<Rightarrow>
                 (if \<not> hashable kv then Inl TypeError
                  else case convert_items E ks xs of
                         Inl e \<Rightarrow> Inl e
                       | Inr kvs \<Rightarrow> Inr ((kv, v) # kvs)))))"
| "convert_items E [] xs = Inr []"
| "convert_items E (k # ks) [] = Inr []"
  by pat_completeness auto
termination
  by (relation "measure (\<lambda>a. case a of
        Inl (Inl (E, node)) \<Rightarrow> size node
      | Inl (Inr (E, elts)) \<Rightarrow> size_list size elts
      | Inr (Inl (E, elts)) \<Rightarrow> size_list size elts
      | Inr (Inr (E, ks, xs)) \<Rightarrow> size_list (size_option size) ks + size_list size xs)")
    auto

definition literal_eval :: "env \<Rightarrow> expr \<Rightarrow> exn + pyvalue" where
  "literal_eval E node = convert E node"

subsection \<open>\<^verbatim>\<open>_split_extension_config\<close>\<close>

text \<open>
  The generator \<^verbatim>\<open>_aux_\<close>: while the node has no \<^verbatim>\<open>id\<close> it yields \<^verbatim>\<open>node.attr\<close> and
  moves to \<^verbatim>\<open>node.value\<close>; then it yields the \<^verbatim>\<open>id\<close>. Only a \<open>Name\<close> has an
  \<^verbatim>\<open>id\<close> and only an \<open>Attribute\<close> has an \<^verbatim>\<open>attr\<close>, so on any other node (and on
  \<^verbatim>\<open>None\<close>) reading \<^verbatim>\<open>node.attr\<close> raises \<^verbatim>\<open>AttributeError\<close>.
\<close>

fun aux :: "expr \<Rightarrow> exn + string list" where
  "aux (Name ident) = Inr [ident]"
| "aux (Attribute v a) = (case aux v of Inl e \<Rightarrow> Inl e | Inr parts \<Rightarrow> Inr (a # parts))"
| "aux node = Inl AttributeError"

text \<open>\<^verbatim>\<open>".".join(parts)\<close>\<close>

fun join_dot :: "string list \<Rightarrow> string" where
  "join_dot [] = []"
| "join_dot [p] = p"
| "join_dot (p # q # ps) = p @ ''.'' @ join_dot (q # ps)"

definition solve_name :: "expr option \<Rightarrow> exn + string" where
  "solve_name exp =
     (case exp of
        None \<Rightarrow> Inl AttributeError
      | Some node \<Rightarrow> (case aux node of Inl e \<Rightarrow> Inl e | Inr parts \<Rightarrow> Inr (join_dot (rev parts))))"

text \<open>
  A configuration is a Python dictionary from keyword names to literal values; the key
  is \<open>None\<close> for a \<^verbatim>\<open>**mapping\<close> argument, whose \<^verbatim>\<open>arg\<close> is \<^verbatim>\<open>None\<close>.
\<close>

type_synonym config = "string option \<rightharpoonup> pyvalue"

text \<open>The dictionary comprehension over \<^verbatim>\<open>expression.keywords\<close>, in order; a later
  keyword with the same key replaces the earlier entry.\<close>

fun eval_keywords :: "env \<Rightarrow> (string option \<times> expr) list \<Rightarrow> config \<Rightarrow> exn + config" where
  "eval_keywords E [] kwargs = Inr kwargs"
| "eval_keywords E ((arg, v) # keywords) kwargs =
     (case literal_eval E v of
        Inl e \<Rightarrow> Inl e
      | Inr x \<Rightarrow> eval_keywords E keywords (kwargs(arg \<mapsto> x)))"

text \<open>\<^verbatim>\<open>ast.parse(extension_name).body[0].value\<close>\<close>

definition parse_expression :: "env \<Rightarrow> string \<Rightarrow> exn + expr option" where
  "parse_expression E extension_name =
     (case ast_parse E extension_name of
        Inl e \<Rightarrow> Inl e
      | Inr body \<Rightarrow>
         (case body of
            [] \<Rightarrow> Inl IndexError
          | Expr v # rest \<Rightarrow> Inr (Some v)
          | ValueStmt v # rest \<Rightarrow> Inr v
          | OtherStmt # rest \<Rightarrow> Inl AttributeError))"

definition split_extension_config :: "env \<Rightarrow> string \<Rightarrow> exn + string \<times> config" where
  "split_extension_config E extension_name =
     (case parse_expression E extension_name of
        Inl e \<Rightarrow> Inl e
      | Inr expression \<Rightarrow>
         (case expression of
            Some (Call func args keywords) \<Rightarrow>
              (case solve_name (Some func) of
                 Inl e \<Rightarrow> Inl e
               | Inr name \<Rightarrow>
                  (case eval_keywords E keywords Map.empty of
                     Inl e \<Rightarrow> Inl e
                   | Inr kwargs \<Rightarrow> Inr (name, kwargs)))
          | _ \<Rightarrow>
              (case solve_name expression of
                 Inl e \<Rightarrow> Inl e
               | Inr name \<Rightarrow> Inr (name, Map.empty))))"

subsection \<open>\<^verbatim>\<open>_canonicalize_extension_name\<close>\<close>

text \<open>
  The \<^verbatim>\<open>for\<close> loop over the prefixes. An \<^verbatim>\<open>ImportError\<close>, \<^verbatim>\<open>ValueError\<close> or
  \<^verbatim>\<open>TypeError\<close> of the import is swallowed and the next prefix is tried, as it is when
  the module has no \<^verbatim>\<open>makeExtension\<close>; any other exception escapes. Falling off the end
  of the loop returns \<^verbatim>\<open>None\<close>. The second component lists the modules whose import
  was attempted, in order.
\<close>

definition caught :: "exn \<Rightarrow> bool" where
  "caught e = (e = ImportError \<or> e = ValueError \<or> e = TypeError)"

fun try_prefixes :: "env \<Rightarrow> string list \<Rightarrow> string \<Rightarrow> (exn + string option) \<times> string list" where
  "try_prefixes E [] extension_name = (Inr None, [])"
| "try_prefixes E (prefix # rest) extension_name =
     (case import_module E (prefix @ extension_name) of
        Inl e \<Rightarrow>
          (if caught e then
             (case try_prefixes E rest extension_name of
                (r, calls) \<Rightarrow> (r, (prefix @ extension_name) # calls))
           else (Inl e, [prefix @ extension_name]))
      | Inr m \<Rightarrow>
          (if \<not> has_makeExtension m then
             (case try_prefixes E rest extension_name of
                (r, calls) \<Rightarrow> (r, (prefix @ extension_name) # calls))
           else (Inr (Some (prefix @ extension_name)), [prefix @ extension_name])))"

definition prefixes :: "string list" where
  "prefixes = [''markdown.extensions.'', [], ''mdx_'']"

definition canonicalize_extension_name ::
  "env \<Rightarrow> string \<Rightarrow> (exn + string option) \<times> string list" where
  "canonicalize_extension_name E extension_name = try_prefixes E prefixes extension_name"

subsection \<open>\<^verbatim>\<open>_apply_extensions\<close>\<close>

text \<open>
  The process-wide state that a run reads and writes: the module-level dictionary
  \<^verbatim>\<open>_canonicalized_ext_names\<close>, the warnings passed to \<^verbatim>\<open>warnings.warn\<close> (whether the
  call returned or raised), and the modules whose import has been attempted.
\<close>

record world =
  canonicalized_ext_names :: "string \<rightharpoonup> string"
  warned :: "warning list"
  import_calls :: "string list"

text \<open>The two local variables of the loop.\<close>

record resolved =
  extension_names :: "string set"
  extension_configs :: "string \<rightharpoonup> config"

text \<open>The fields of the markup object that the run reads and assigns.\<close>

record markup =
  requested_extensions :: "string list"
  global_extensions :: "string list"
  document_extensions :: "string list"
  extensions :: "string set"
  markup_extension_configs :: "string \<rightharpoonup> config"

definition mathjax_config :: config where
  "mathjax_config = [Some ''enable_dollar_delimiter'' \<mapsto> VConst (CBool True)]"

definition does_not_exist :: "string \<Rightarrow> warning" where
  "does_not_exist extension = ImportWarning (''Extension \"'' @ extension @ ''\" does not exist.'')"

text \<open>
  Lines 140 to 148 of the loop body without the warning: the lookup of the name in
  \<^verbatim>\<open>_canonicalized_ext_names\<close> and, when the name is not a key, the call of
  \<^verbatim>\<open>_canonicalize_extension_name\<close>, whose result is stored in the dictionary unless it
  is \<^verbatim>\<open>None\<close>.
\<close>

definition resolve :: "env \<Rightarrow> string \<Rightarrow> world \<Rightarrow> (exn + string option) \<times> world" where
  "resolve E name w =
     (case canonicalized_ext_names w name of
        Some canonical_name \<Rightarrow> (Inr (Some canonical_name), w)
      | None \<Rightarrow>
          (case canonicalize_extension_name E name of
             (Inl e, calls) \<Rightarrow> (Inl e, w\<lparr>import_calls := import_calls w @ calls\<rparr>)
           | (Inr None, calls) \<Rightarrow> (Inr None, w\<lparr>import_calls := import_calls w @ calls\<rparr>)
           | (Inr (Some canonical_name), calls) \<Rightarrow>
               (Inr (Some canonical_name),
                w\<lparr>import_calls := import_calls w @ calls,
                  canonicalized_ext_names :=
                    (canonicalized_ext_names w)(name \<mapsto> canonical_name)\<rparr>)))"

text \<open>
  One iteration of the \<^verbatim>\<open>for\<close> loop. An exception leaves the loop with the world as it
  is at that point; the local variables are lost with the frame. For a name that is not
  resolved, \<^verbatim>\<open>warnings.warn\<close> is called: under a filter with the action \<^verbatim>\<open>error\<close> the
  call raises the warning and the \<^verbatim>\<open>continue\<close> after it is not reached; otherwise it
  returns and the loop goes on with the next token.
\<close>

definition apply_extension ::
  "env \<Rightarrow> string \<Rightarrow> resolved \<Rightarrow> world \<Rightarrow> (exn + resolved) \<times> world" where
  "apply_extension E extension acc w =
     (if extension = ''mathjax'' then
        (Inr (acc\<lparr>extension_configs := (extension_configs acc)(''mdx_math'' \<mapsto> mathjax_config)\<rparr>), w)
      else if extension = ''remove_extra'' then
        (Inr (acc\<lparr>extension_names :=
                extension_names acc - {''markdown.extensions.extra''} - {''mdx_math''}\<rparr>), w)
      else
        (case split_extension_config E extension of
           Inl e \<Rightarrow> (Inl e, w)
         | Inr (name, config) \<Rightarrow>
            (case resolve E name w of
               (Inl e, w') \<Rightarrow> (Inl e, w')
             | (Inr None, w') \<Rightarrow>
                 (if filter_raises E (does_not_exist extension) then
                    (Inl (WarningRaised (does_not_exist extension)),
                     w'\<lparr>warned := warned w' @ [does_not_exist extension]\<rparr>)
                  else (Inr acc, w'\<lparr>warned := warned w' @ [does_not_exist extension]\<rparr>))
             | (Inr (Some canonical_name), w') \<Rightarrow>
                 (Inr (acc\<lparr>extension_names := insert canonical_name (extension_names acc),
                            extension_configs :=
                              (extension_configs acc)(canonical_name \<mapsto> config)\<rparr>),
                  w'))))"

fun apply_loop :: "env \<Rightarrow> string list \<Rightarrow> resolved \<Rightarrow> world \<Rightarrow> (exn + resolved) \<times> world" where
  "apply_loop E [] acc w = (Inr acc, w)"
| "apply_loop E (extension # rest) acc w =
     (case apply_extension E extension acc w of
        (Inl e, w') \<Rightarrow> (Inl e, w')
      | (Inr acc', w') \<Rightarrow> apply_loop E rest acc' w')"

definition initial :: resolved where
  "initial = \<lparr>extension_names = {''markdown.extensions.extra'', ''mdx_math''},
              extension_configs = Map.empty\<rparr>"

text \<open>
  The run itself. The construction of the engine object \<^verbatim>\<open>markdown.Markdown(...)\<close> from
  the two results belongs to the external engine and is not part of the model.
\<close>

definition apply_extensions :: "env \<Rightarrow> markup \<Rightarrow> world \<Rightarrow> (exn + markup) \<times> world" where
  "apply_extensions E self w =
     (case apply_loop E
             (requested_extensions self @ global_extensions self @ document_extensions self)
             initial w of
        (Inl e, w') \<Rightarrow> (Inl e, w')
      | (Inr acc, w') \<Rightarrow>
          (Inr (self\<lparr>extensions := extension_names acc,
                     markup_extension_configs := extension_configs acc\<rparr>), w'))"

subsection \<open>\<^verbatim>\<open>_get_document_extensions\<close>\<close>

text \<open>
  \<^verbatim>\<open>str.splitlines\<close>: the line boundaries below code point 256 are line feed, carriage
  return (with a following line feed taken as one boundary), vertical tab, form feed,
  the file, group and record separators and NEL. A text that ends in a boundary has
  no empty last line.
\<close>

definition is_linebreak :: "char \<Rightarrow> bool" where
  "is_linebreak c =
     (c = CHR 0x0A \<or> c = CHR 0x0D \<or> c = CHR 0x0B \<or> c = CHR 0x0C \<or>
      c = CHR 0x1C \<or> c = CHR 0x1D \<or> c = CHR 0x1E \<or> c = CHR 0x85)"

fun splitlines_from :: "string \<Rightarrow> string \<Rightarrow> string list" where
  "splitlines_from line [] = (if line = [] then [] else [line])"
| "splitlines_from line [c] = (if is_linebreak c then [line] else [line @ [c]])"
| "splitlines_from line (c # d # cs) =
     (if c = CHR 0x0D \<and> d = CHR 0x0A then line # splitlines_from [] cs
      else if is_linebreak c then line # splitlines_from [] (d # cs)
      else splitlines_from (line @ [c]) (d # cs))"

definition splitlines :: "string \<Rightarrow> string list" where
  "splitlines text = splitlines_from [] text"

text \<open>
  Matching under \<^verbatim>\<open>re.IGNORECASE\<close>: below code point 256 a letter of the pattern
  matches itself and its other ASCII case, any other character of the pattern only
  itself.
\<close>

definition ascii_lower :: "char \<Rightarrow> char" where
  "ascii_lower c =
     (if (65::nat) \<le> of_char c \<and> of_char c \<le> (90::nat) then char_of (of_char c + (32::nat)) else c)"

fun match_ignorecase :: "string \<Rightarrow> string \<Rightarrow> string option" where
  "match_ignorecase [] s = Some s"
| "match_ignorecase (p # ps) [] = None"
| "match_ignorecase (p # ps) (c # cs) =
     (if ascii_lower c = ascii_lower p then match_ignorecase ps cs else None)"

text \<open>
  \<^verbatim>\<open>extensions_re = re.compile(r'required.extensions: (.+)', flags=re.IGNORECASE)\<close>.
  \<open>extensions_re_match\<close> matches the pattern at the start of its argument and returns
  group 1: the dot matches any character but a line feed, and the greedy \<^verbatim>\<open>(.+)\<close>
  takes every character up to the next line feed, at least one.
  \<open>extensions_re_search\<close> is \<^verbatim>\<open>extensions_re.search\<close>: the leftmost position with a match.
\<close>

definition extensions_re_match :: "string \<Rightarrow> string option" where
  "extensions_re_match s =
     (case match_ignorecase ''required'' s of
        None \<Rightarrow> None
      | Some [] \<Rightarrow> None
      | Some (c # s1) \<Rightarrow>
          (if c = CHR 0x0A then None
           else case match_ignorecase ''extensions: '' s1 of
                  None \<Rightarrow> None
                | Some s2 \<Rightarrow>
                    (let group1 = takeWhile (\<lambda>c. c \<noteq> CHR 0x0A) s2
                     in if group1 = [] then None else Some group1)))"

fun extensions_re_search :: "string \<Rightarrow> string option" where
  "extensions_re_search [] = extensions_re_match []"
| "extensions_re_search (c # cs) =
     (case extensions_re_match (c # cs) of
        Some group1 \<Rightarrow> Some group1
      | None \<Rightarrow> extensions_re_search cs)"

text \<open>
  \<^verbatim>\<open>extension_name_re = re.compile(r'[a-z0-9_.]+(?:\([^)]+\))?', flags=re.IGNORECASE)\<close>.
  \<open>extension_name_re_match\<close> returns the text matched at the start of its argument:
  the longest run of name characters, followed, when the text goes on with an opening
  parenthesis, one or more characters that are not a closing parenthesis, and a closing
  parenthesis, by that parenthesized part.
\<close>

definition is_name_char :: "char \<Rightarrow> bool" where
  "is_name_char c =
     ((97::nat) \<le> of_char c \<and> of_char c \<le> (122::nat) \<or>
      (65::nat) \<le> of_char c \<and> of_char c \<le> (90::nat) \<or>
      (48::nat) \<le> of_char c \<and> of_char c \<le> (57::nat) \<or>
      c = CHR ''_'' \<or> c = CHR ''.'')"

definition paren_group :: "string \<Rightarrow> string" where
  "paren_group s =
     (case s of
        [] \<Rightarrow> []
      | c # s1 \<Rightarrow>
          (if c \<noteq> CHR ''('' then []
           else let inner = takeWhile (\<lambda>c. c \<noteq> CHR '')'') s1;
                    s2 = dropWhile (\<lambda>c. c \<noteq> CHR '')'') s1
                in if inner \<noteq> [] \<and> s2 \<noteq> [] then CHR ''('' # inner @ '')'' else []))"

definition extension_name_re_match :: "string \<Rightarrow> string option" where
  "extension_name_re_match s =
     (let run = takeWhile is_name_char s
      in if run = [] then None else Some (run @ paren_group (dropWhile is_name_char s)))"

text \<open>
  \<^verbatim>\<open>extension_name_re.findall\<close>: the matches from left to right, each search starting
  where the previous match ended; a position with no match is skipped.
\<close>

function extension_name_re_findall :: "string \<Rightarrow> string list" where
  "extension_name_re_findall [] = []"
| "extension_name_re_findall (c # cs) =
     (case extension_name_re_match (c # cs) of
        None \<Rightarrow> extension_name_re_findall cs
      | Some token \<Rightarrow> token # extension_name_re_findall (drop (length token) (c # cs)))"
  by pat_completeness auto
termination
proof (relation "measure length")
  fix c cs token
  assume "extension_name_re_match (c # cs) = Some token"
  then have "token \<noteq> []"
    by (auto simp: extension_name_re_match_def Let_def split: if_splits)
  then show "(drop (length token) (c # cs), c # cs) \<in> measure length"
    by (cases token) auto
qed auto

definition get_document_extensions :: "string \<Rightarrow> string list" where
  "get_document_extensions text =
     (let lines = splitlines text;
          match = (case lines of [] \<Rightarrow> None | line # rest \<Rightarrow> extensions_re_search line)
      in case match of
           Some group1 \<Rightarrow> extension_name_re_findall group1
         | None \<Rightarrow> [])"

subsection \<open>Literal expressions\<close>

text \<open>
  The literal values that the specification lists: booleans, numbers, strings, and
  lists and tuples of these. \<open>literal_value\<close> is the value such a node denotes.
\<close>

fun spec_literal :: "expr \<Rightarrow> bool" where
  "spec_literal (Constant (CBool b)) = True"
| "spec_literal (Constant (CInt i)) = True"
| "spec_literal (Constant (CFloat f)) = True"
| "spec_literal (Constant (CComplex re im)) = True"
| "spec_literal (Constant (CStr s)) = True"
| "spec_literal (Tuple elts) = (\<forall>x \<in> set elts. spec_literal x)"
| "spec_literal (ListE elts) = (\<forall>x \<in> set elts. spec_literal x)"
| "spec_literal node = False"

fun literal_value :: "expr \<Rightarrow> pyvalue" where
  "literal_value (Tuple elts) = VTuple (map literal_value elts)"
| "literal_value (ListE elts) = VList (map literal_value elts)"
| "literal_value (Constant c) = VConst c"
| "literal_value node = VConst CNone"

text \<open>
  The nodes inside the grammar of \<^verbatim>\<open>ast.literal_eval\<close>: constants, tuples, lists, sets
  and dictionaries of such nodes, the empty-set call \<^verbatim>\<open>set()\<close>, a number under a unary
  sign, and the sum or difference of a signed real number and an imaginary one.
\<close>

fun is_number :: "expr \<Rightarrow> bool" where
  "is_number (Constant (CInt i)) = True"
| "is_number (Constant (CFloat f)) = True"
| "is_number (Constant (CComplex re im)) = True"
| "is_number node = False"

fun is_real_number :: "expr \<Rightarrow> bool" where
  "is_real_number (Constant (CInt i)) = True"
| "is_real_number (Constant (CFloat f)) = True"
| "is_real_number node = False"

fun is_signed_real :: "expr \<Rightarrow> bool" where
  "is_signed_real (UnaryOp UAdd operand) = is_real_number operand"
| "is_signed_real (UnaryOp USub operand) = is_real_number operand"
| "is_signed_real node = is_real_number node"

fun is_imaginary :: "expr \<Rightarrow> bool" where
  "is_imaginary (Constant (CComplex re im)) = True"
| "is_imaginary node = False"

fun literal_node :: "expr \<Rightarrow> bool" where
  "literal_node (Constant c) = True"
| "literal_node (Tuple elts) = (\<forall>x \<in> set elts. literal_node x)"
| "literal_node (ListE elts) = (\<forall>x \<in> set elts. literal_node x)"
| "literal_node (SetE elts) = (\<forall>x \<in> set elts. literal_node x)"
| "literal_node (Dict keys vals) =
     (length keys = length vals \<and> (\<forall>k \<in> set keys. case k of None \<Rightarrow> False | Some x \<Rightarrow> literal_node x) \<and>
      (\<forall>x \<in> set vals. literal_node x))"
| "literal_node (Call func args keywords) = (func = Name ''set'' \<and> args = [] \<and> keywords = [])"
| "literal_node (UnaryOp op operand) = ((op = UAdd \<or> op = USub) \<and> is_number operand)"
| "literal_node (BinOp left op right) =
     ((op = Add \<or> op = Sub) \<and> is_signed_real left \<and> is_imaginary right)"
| "literal_node node = False"

text \<open>A reference to a name, an attribute access, or a call other than \<^verbatim>\<open>set()\<close>.\<close>

fun reference_or_call :: "expr \<Rightarrow> bool" where
  "reference_or_call (Name ident) = True"
| "reference_or_call (Attribute v a) = True"
| "reference_or_call (Call func args keywords) = (\<not> (func = Name ''set'' \<and> args = [] \<and> keywords = []))"
| "reference_or_call node = False"

text \<open>The dictionary that a list of keywords with literal values denotes.\<close>

fun keyword_config :: "(string option \<times> expr) list \<Rightarrow> config \<Rightarrow> config" where
  "keyword_config [] kwargs = kwargs"
| "keyword_config ((arg, v) # keywords) kwargs = keyword_config keywords (kwargs(arg \<mapsto> literal_value v))"

subsection \<open>Outcomes of one import, and a concrete environment\<close>

text \<open>
  What the loop of \<^verbatim>\<open>_canonicalize_extension_name\<close> sees of one module name: the module
  loads and has \<^verbatim>\<open>makeExtension\<close>; or the candidate is passed over (the import raises
  one of the three swallowed exceptions, or the module lacks \<^verbatim>\<open>makeExtension\<close>).
\<close>

definition loads :: "env \<Rightarrow> string \<Rightarrow> bool" where
  "loads E m = (case import_module E m of Inl e \<Rightarrow> False | Inr md \<Rightarrow> has_makeExtension md)"

definition passed_over :: "env \<Rightarrow> string \<Rightarrow> bool" where
  "passed_over E m = (case import_module E m of Inl e \<Rightarrow> caught e | Inr md \<Rightarrow> \<not> has_makeExtension md)"

text \<open>
  An installation used for the examples. The parser is given as the table of the
  syntax trees of the tokens that the examples use; every other string is a syntax error
  there. The loader knows three extension modules of the engine, the math extension, a
  top-level module \<^verbatim>\<open>meta\<close> that is an extension too, and the package \<^verbatim>\<open>markdown\<close>
  (no extension). No example contains a float, so the arithmetic is never applied. The
  warning filters are the default ones: no warning is raised.
\<close>

definition demo_parse :: "string \<Rightarrow> exn + stmt list" where
  "demo_parse s =
     (if s = ''toc'' then Inr [Expr (Name ''toc'')]
      else if s = ''meta'' then Inr [Expr (Name ''meta'')]
      else if s = ''extra'' then Inr [Expr (Name ''extra'')]
      else if s = ''math'' then Inr [Expr (Name ''math'')]
      else if s = ''mdx_math'' then Inr [Expr (Name ''mdx_math'')]
      else if s = ''markdown'' then Inr [Expr (Name ''markdown'')]
      else if s = ''nonexistent123'' then Inr [Expr (Name ''nonexistent123'')]
      else if s = ''markdown.extensions.extra'' then
        Inr [Expr (Attribute (Attribute (Name ''markdown'') ''extensions'') ''extra'')]
      else if s = ''toc(permalink=True)'' then
        Inr [Expr (Call (Name ''toc'') [] [(Some ''permalink'', Constant (CBool True))])]
      else if s = ''toc(1, permalink=True)'' then
        Inr [Expr (Call (Name ''toc'') [Constant (CInt 1)]
                     [(Some ''permalink'', Constant (CBool True))])]
      else if s = ''toc(anchor, permalink=True)'' then
        Inr [Expr (Call (Name ''toc'') [Name ''anchor'']
                     [(Some ''permalink'', Constant (CBool True))])]
      else if s = ''toc(permalink=yes)'' then
        Inr [Expr (Call (Name ''toc'') [] [(Some ''permalink'', Name ''yes'')])]
      else if s = ''toc(permalink=str(1))'' then
        Inr [Expr (Call (Name ''toc'') []
                     [(Some ''permalink'', Call (Name ''str'') [Constant (CInt 1)] [])])]
      else if s = ''toc(baselevel=set())'' then
        Inr [Expr (Call (Name ''toc'') [] [(Some ''baselevel'', Call (Name ''set'') [] [])])]
      else if s = ''toc(marker=None)'' then
        Inr [Expr (Call (Name ''toc'') [] [(Some ''marker'', Constant CNone)])]
      else Inl SyntaxError)"

definition demo_import :: "string \<Rightarrow> exn + py_module" where
  "demo_import m =
     (if m = ''markdown.extensions.extra'' \<or> m = ''markdown.extensions.toc'' \<or>
         m = ''markdown.extensions.meta'' \<or> m = ''mdx_math'' \<or> m = ''meta''
      then Inr (Module True)
      else if m = ''markdown'' then Inr (Module False)
      else Inl ImportError)"

definition demo_env :: env where
  "demo_env = \<lparr>ast_parse = demo_parse, import_module = demo_import,
               float_neg = (\<lambda>f. f),
               num_add = (\<lambda>l r. Inl OverflowError),
               num_sub = (\<lambda>l r. Inl OverflowError),
               filter_raises = (\<lambda>x. False)\<rparr>"

text \<open>The same installation in a process started with the warning filter \<^verbatim>\<open>error\<close>.\<close>

definition strict_env :: env where
  "strict_env = demo_env\<lparr>filter_raises := (\<lambda>x. True)\<rparr>"

definition empty_world :: world where
  "empty_world = \<lparr>canonicalized_ext_names = Map.empty, warned = [], import_calls = []\<rparr>"

text \<open>The markup object as \<^verbatim>\<open>__init__\<close> has it before the first run.\<close>

definition new_markup :: "string list \<Rightarrow> string list \<Rightarrow> string list \<Rightarrow> markup" where
  "new_markup requested global document =
     \<lparr>requested_extensions = requested, global_extensions = global,
      document_extensions = document, extensions = {}, markup_extension_configs = Map.empty\<rparr>"

text \<open>
  The result of a run: whether it returned, and the names and the configurations it
  assigned (empty when an exception escaped).
\<close>

definition completes :: "(exn + markup) \<times> world \<Rightarrow> bool" where
  "completes r = (case fst r of Inl e \<Rightarrow> False | Inr m \<Rightarrow> True)"

definition names_of :: "(exn + markup) \<times> world \<Rightarrow> string set" where
  "names_of r = (case fst r of Inl e \<Rightarrow> {} | Inr m \<Rightarrow> extensions m)"

definition configs_of :: "(exn + markup) \<times> world \<Rightarrow> string \<rightharpoonup> config" where
  "configs_of r = (case fst r of Inl e \<Rightarrow> Map.empty | Inr m \<Rightarrow> markup_extension_configs m)"

text \<open>
  The dictionary \<^verbatim>\<open>_canonicalized_ext_names\<close> agrees with the installation: every entry
  is what the canonicalizer returns for its key. The dictionary of a fresh process is
  empty, and the module writes no other entries.
\<close>

definition cache_consistent :: "env \<Rightarrow> world \<Rightarrow> bool" where
  "cache_consistent E w =
     (\<forall>name c. canonicalized_ext_names w name = Some c \<longrightarrow>
        fst (canonicalize_extension_name E name) = Inr (Some c))"

text \<open>A token that is not a pseudo-extension and whose parsed name is one of the given names.\<close>

definition names_one_of :: "env \<Rightarrow> string list \<Rightarrow> string \<Rightarrow> bool" where
  "names_one_of E candidates extension =
     (extension \<noteq> ''mathjax'' \<and> extension \<noteq> ''remove_extra'' \<and>
      (case split_extension_config E extension of
         Inl e \<Rightarrow> False
       | Inr (name, config) \<Rightarrow> name \<in> set candidates))"

text \<open>The world after the name \<^verbatim>\<open>toc\<close>, and after the name \<^verbatim>\<open>nonexistent123\<close>, has been resolved
  once in a fresh process of the example installation.\<close>

definition after_toc :: world where
  "after_toc = \<lparr>canonicalized_ext_names = [''toc'' \<mapsto> ''markdown.extensions.toc''], warned = [],
     import_calls = [''markdown.extensions.toc'']\<rparr>"

definition after_unknown :: world where
  "after_unknown = \<lparr>canonicalized_ext_names = Map.empty, warned = [],
     import_calls = [''markdown.extensions.nonexistent123'', ''nonexistent123'', ''mdx_nonexistent123'']\<rparr>"

subsection \<open>The directive and its tokens, declaratively\<close>

text \<open>
  A line matches the directive pattern when it contains, anywhere, the word
  \<^verbatim>\<open>required\<close> in any mix of cases, one character that is not a line feed, the text
  \<^verbatim>\<open>extensions: \<close> in any mix of cases, and then at least one more character that is not a
  line feed.
\<close>

definition matches_directive :: "string \<Rightarrow> bool" where
  "matches_directive line =
     (\<exists>pre w1 c w2 rest.
        line = pre @ w1 @ c # w2 @ rest \<and>
        map ascii_lower w1 = ''required'' \<and> c \<noteq> CHR 0x0A \<and>
        map ascii_lower w2 = ''extensions: '' \<and> rest \<noteq> [] \<and> hd rest \<noteq> CHR 0x0A)"

text \<open>
  What the regular expression \<^verbatim>\<open>extension_name_re\<close> matches: a non-empty run of letters,
  digits, underscores and dots, optionally followed by an opening parenthesis, one or
  more characters none of which is a closing parenthesis, and a closing parenthesis.
  The part in parentheses ends at the first closing parenthesis; an opening parenthesis
  may occur inside it.
\<close>

definition regex_token :: "string \<Rightarrow> bool" where
  "regex_token tok =
     (\<exists>run. run \<noteq> [] \<and> list_all is_name_char run \<and>
        (tok = run \<or>
         (\<exists>inner. inner \<noteq> [] \<and> CHR '')'' \<notin> set inner \<and> tok = run @ ''('' @ inner @ '')'')))"

text \<open>
  The token grammar in the words of the specification: a run of letters, digits,
  underscores and dots, optionally followed by a parenthesized argument list whose
  parentheses balance. \<open>paren_scan\<close> reads a text with the number of parentheses that are
  open; every closing parenthesis must close an open one, and none may stay open.
\<close>

fun paren_scan :: "nat \<Rightarrow> string \<Rightarrow> bool" where
  "paren_scan depth [] = (depth = 0)"
| "paren_scan depth (c # cs) =
     (if c = CHR ''('' then paren_scan (Suc depth) cs
      else if c = CHR '')'' then (case depth of 0 \<Rightarrow> False | Suc d \<Rightarrow> paren_scan d cs)
      else paren_scan depth cs)"

definition balanced :: "string \<Rightarrow> bool" where
  "balanced s = paren_scan 0 s"

definition spec_token :: "string \<Rightarrow> bool" where
  "spec_token tok =
     (let run = takeWhile is_name_char tok; args = dropWhile is_name_char tok
      in run \<noteq> [] \<and>
         (args = [] \<or> (hd args = CHR ''('' \<and> last args = CHR '')'' \<and> balanced args)))"

section \<open>The name canonicalizer\<close>

lemma try_prefixes_loads:
  "loads E (p @ n) \<Longrightarrow> fst (try_prefixes E (p # ps) n) = Inr (Some (p @ n))"
  by (auto simp: loads_def split: sum.splits)

lemma try_prefixes_passed_over:
  "passed_over E (p @ n) \<Longrightarrow> fst (try_prefixes E (p # ps) n) = fst (try_prefixes E ps n)"
  by (auto simp: passed_over_def split: sum.splits prod.splits)

text \<open>
  C1 (as the code has it). The prefixes are tried in the order
  \<^verbatim>\<open>'markdown.extensions.'\<close>, the empty prefix, \<^verbatim>\<open>'mdx_'\<close>: the result is
  \<^verbatim>\<open>prefix + rawName\<close> for the first prefix in that order whose module loads and has
  \<^verbatim>\<open>makeExtension\<close>, every earlier candidate having been passed over, and it is
  \<^verbatim>\<open>None\<close> when all three candidates are passed over.
\<close>

theorem canonicalize_prefix_order:
  "(loads E (''markdown.extensions.'' @ n) \<longrightarrow>
      fst (canonicalize_extension_name E n) = Inr (Some (''markdown.extensions.'' @ n))) \<and>
   (passed_over E (''markdown.extensions.'' @ n) \<and> loads E n \<longrightarrow>
      fst (canonicalize_extension_name E n) = Inr (Some n)) \<and>
   (passed_over E (''markdown.extensions.'' @ n) \<and> passed_over E n \<and> loads E (''mdx_'' @ n) \<longrightarrow>
      fst (canonicalize_extension_name E n) = Inr (Some (''mdx_'' @ n))) \<and>
   (passed_over E (''markdown.extensions.'' @ n) \<and> passed_over E n \<and> passed_over E (''mdx_'' @ n) \<longrightarrow>
      fst (canonicalize_extension_name E n) = Inr None)"
proof -
  have ext: "loads E (''markdown.extensions.'' @ n) \<Longrightarrow>
      fst (canonicalize_extension_name E n) = Inr (Some (''markdown.extensions.'' @ n))"
    unfolding canonicalize_extension_name_def prefixes_def by (rule try_prefixes_loads)
  have skip1: "passed_over E (''markdown.extensions.'' @ n) \<Longrightarrow>
      fst (canonicalize_extension_name E n) = fst (try_prefixes E [[], ''mdx_''] n)"
    unfolding canonicalize_extension_name_def prefixes_def by (rule try_prefixes_passed_over)
  have bare: "loads E n \<Longrightarrow> fst (try_prefixes E [[], ''mdx_''] n) = Inr (Some n)"
    using try_prefixes_loads [of E "[]" n "[''mdx_'']"] by simp
  have skip2: "passed_over E n \<Longrightarrow>
      fst (try_prefixes E [[], ''mdx_''] n) = fst (try_prefixes E [''mdx_''] n)"
    using try_prefixes_passed_over [of E "[]" n "[''mdx_'']"] by simp
  have mdx: "loads E (''mdx_'' @ n) \<Longrightarrow>
      fst (try_prefixes E [''mdx_''] n) = Inr (Some (''mdx_'' @ n))"
    by (rule try_prefixes_loads)
  have skip3: "passed_over E (''mdx_'' @ n) \<Longrightarrow> fst (try_prefixes E [''mdx_''] n) = Inr None"
    using try_prefixes_passed_over [of E "''mdx_''" n "[]"] by simp
  show ?thesis
    using ext skip1 bare skip2 mdx skip3 by simp
qed

theorem canonicalize_prefix_order_witness:
  "loads demo_env (''markdown.extensions.'' @ ''meta'') \<and>
   fst (canonicalize_extension_name demo_env ''meta'') = Inr (Some ''markdown.extensions.meta'') \<and>
   passed_over demo_env (''markdown.extensions.'' @ ''mdx_math'') \<and> loads demo_env ''mdx_math'' \<and>
   fst (canonicalize_extension_name demo_env ''mdx_math'') = Inr (Some ''mdx_math'') \<and>
   passed_over demo_env (''markdown.extensions.'' @ ''math'') \<and> passed_over demo_env ''math'' \<and>
   loads demo_env (''mdx_'' @ ''math'') \<and>
   fst (canonicalize_extension_name demo_env ''math'') = Inr (Some ''mdx_math'') \<and>
   passed_over demo_env (''markdown.extensions.'' @ ''markdown'') \<and>
   passed_over demo_env ''markdown'' \<and> passed_over demo_env (''mdx_'' @ ''markdown'') \<and>
   fst (canonicalize_extension_name demo_env ''markdown'') = Inr None"
proof -
  have h1: "loads demo_env (''markdown.extensions.'' @ ''meta'')"
    by (simp add: loads_def demo_env_def demo_import_def)
  have h2: "passed_over demo_env (''markdown.extensions.'' @ ''mdx_math'') \<and> loads demo_env ''mdx_math''"
    by (simp add: loads_def passed_over_def caught_def demo_env_def demo_import_def)
  have h3: "passed_over demo_env (''markdown.extensions.'' @ ''math'') \<and> passed_over demo_env ''math'' \<and>
      loads demo_env (''mdx_'' @ ''math'')"
    by (simp add: loads_def passed_over_def caught_def demo_env_def demo_import_def)
  have h4: "passed_over demo_env (''markdown.extensions.'' @ ''markdown'') \<and>
      passed_over demo_env ''markdown'' \<and> passed_over demo_env (''mdx_'' @ ''markdown'')"
    by (simp add: loads_def passed_over_def caught_def demo_env_def demo_import_def)
  show ?thesis
    using h1 h2 h3 h4
      canonicalize_prefix_order [of demo_env "''meta''"]
      canonicalize_prefix_order [of demo_env "''mdx_math''"]
      canonicalize_prefix_order [of demo_env "''math''"]
      canonicalize_prefix_order [of demo_env "''markdown''"]
    by simp
qed

text \<open>
  The order stated for C1 puts the empty prefix first. In the example installation both
  \<^verbatim>\<open>meta\<close> and \<^verbatim>\<open>markdown.extensions.meta\<close> load as extensions; the result is the
  prefixed name, not the unprefixed one.
\<close>

theorem canonicalize_unprefixed_first_counterexample:
  "loads demo_env ([] @ ''meta'') \<and>
   fst (canonicalize_extension_name demo_env ''meta'') \<noteq> Inr (Some ([] @ ''meta''))"
  by (simp add: loads_def canonicalize_extension_name_def prefixes_def demo_env_def demo_import_def)

subsection \<open>The cache of canonical names\<close>

lemma try_prefixes_None_calls:
  "fst (try_prefixes E ps n) = Inr None \<Longrightarrow> snd (try_prefixes E ps n) = map (\<lambda>p. p @ n) ps"
  by (induction ps) (auto split: sum.splits prod.splits if_splits)

lemma try_prefixes_Some:
  "fst (try_prefixes E ps n) = Inr (Some c) \<Longrightarrow> \<exists>p \<in> set ps. c = p @ n"
  by (induction ps) (auto split: sum.splits prod.splits if_splits)

lemma canonicalize_None_calls:
  "fst (canonicalize_extension_name E n) = Inr None \<Longrightarrow>
   snd (canonicalize_extension_name E n) = [''markdown.extensions.'' @ n, n, ''mdx_'' @ n]"
  unfolding canonicalize_extension_name_def
  by (drule try_prefixes_None_calls) (simp add: prefixes_def)

lemma canonicalize_Some:
  "fst (canonicalize_extension_name E n) = Inr (Some c) \<Longrightarrow>
   c = ''markdown.extensions.'' @ n \<or> c = n \<or> c = ''mdx_'' @ n"
  unfolding canonicalize_extension_name_def
  by (drule try_prefixes_Some) (auto simp: prefixes_def)

lemma resolve_hit:
  "canonicalized_ext_names w n = Some c \<Longrightarrow> resolve E n w = (Inr (Some c), w)"
  by (simp add: resolve_def)

lemma resolve_miss:
  "canonicalized_ext_names w n = None \<Longrightarrow>
   resolve E n w =
     (case fst (canonicalize_extension_name E n) of
        Inr (Some c) \<Rightarrow>
          (Inr (Some c),
           w\<lparr>import_calls := import_calls w @ snd (canonicalize_extension_name E n),
             canonicalized_ext_names := (canonicalized_ext_names w)(n \<mapsto> c)\<rparr>)
      | r \<Rightarrow> (r, w\<lparr>import_calls := import_calls w @ snd (canonicalize_extension_name E n)\<rparr>))"
  by (cases "canonicalize_extension_name E n")
     (auto simp: resolve_def split: sum.splits option.splits)

text \<open>
  C2 (as the code has it). Resolving the same name twice gives the same result both
  times. When the first resolution finds a canonical name, the name is in the cache
  afterwards and the second resolution is a cache hit that leaves the world as it is: no
  import is attempted. When the first resolution finds none, nothing is cached for the
  name, and the second resolution attempts the three imports again.
\<close>

theorem resolve_twice:
  assumes first: "resolve E n w = (r1, w1)" and second: "resolve E n w1 = (r2, w2)"
  shows "r2 = r1 \<and>
    ((\<exists>c. r1 = Inr (Some c)) \<longrightarrow>
       canonicalized_ext_names w1 n \<noteq> None \<and> w2 = w1) \<and>
    (r1 = Inr None \<longrightarrow>
       canonicalized_ext_names w1 n = None \<and>
       import_calls w2 = import_calls w1 @ [''markdown.extensions.'' @ n, n, ''mdx_'' @ n])"
proof (cases "canonicalized_ext_names w n")
  case (Some c)
  with first second show ?thesis by (auto simp: resolve_hit)
next
  case None
  show ?thesis
  proof (cases "fst (canonicalize_extension_name E n)")
    case (Inl e)
    with None first have "r1 = Inl e" "canonicalized_ext_names w1 n = None"
      by (auto simp: resolve_miss)
    with Inl second show ?thesis by (auto simp: resolve_miss)
  next
    case (Inr res)
    show ?thesis
    proof (cases res)
      case N: None
      with Inr None first have a: "r1 = Inr None" "canonicalized_ext_names w1 n = None"
        by (auto simp: resolve_miss)
      with Inr N second have "r2 = Inr None"
        "import_calls w2 = import_calls w1 @ snd (canonicalize_extension_name E n)"
        by (auto simp: resolve_miss)
      with a Inr N show ?thesis by (simp add: canonicalize_None_calls)
    next
      case (Some c)
      with Inr None first have a: "r1 = Inr (Some c)" "canonicalized_ext_names w1 n = Some c"
        by (auto simp: resolve_miss)
      with second show ?thesis by (auto simp: resolve_hit)
    qed
  qed
qed

lemma demo_unknown: "fst (canonicalize_extension_name demo_env ''nonexistent123'') = Inr None"
  by (simp add: canonicalize_extension_name_def prefixes_def demo_env_def demo_import_def caught_def)

lemma demo_toc:
  "canonicalize_extension_name demo_env ''toc'' =
     (Inr (Some ''markdown.extensions.toc''), [''markdown.extensions.toc''])"
  by (simp add: canonicalize_extension_name_def prefixes_def demo_env_def demo_import_def caught_def)

lemma demo_resolve:
  "resolve demo_env ''toc'' empty_world = (Inr (Some ''markdown.extensions.toc''), after_toc)"
  "resolve demo_env ''toc'' after_toc = (Inr (Some ''markdown.extensions.toc''), after_toc)"
  "resolve demo_env ''nonexistent123'' empty_world = (Inr None, after_unknown)"
  by (simp_all add: resolve_miss resolve_hit demo_toc demo_unknown canonicalize_None_calls
        empty_world_def after_toc_def after_unknown_def)

theorem resolve_twice_witness:
  "resolve demo_env ''toc'' empty_world = (Inr (Some ''markdown.extensions.toc''), after_toc) \<and>
   resolve demo_env ''toc'' after_toc = (Inr (Some ''markdown.extensions.toc''), after_toc) \<and>
   canonicalized_ext_names after_toc ''toc'' \<noteq> None \<and>
   resolve demo_env ''nonexistent123'' empty_world = (Inr None, after_unknown) \<and>
   fst (resolve demo_env ''nonexistent123'' after_unknown) = Inr None \<and>
   canonicalized_ext_names after_unknown ''nonexistent123'' = None \<and>
   import_calls (snd (resolve demo_env ''nonexistent123'' after_unknown)) =
     import_calls after_unknown @
       [''markdown.extensions.nonexistent123'', ''nonexistent123'', ''mdx_nonexistent123'']"
  using resolve_twice [OF demo_resolve(1) demo_resolve(2)]
    resolve_twice [OF demo_resolve(3) surjective_pairing] demo_resolve
  by simp

text \<open>
  C2 as stated has a failed name cached as absent. After the unknown name has been
  resolved once, the cache has no entry for it, and the second resolution repeats the
  three import attempts of the first.
\<close>

theorem failure_cached_counterexample:
  "fst (resolve demo_env ''nonexistent123'' empty_world) = Inr None \<and>
   canonicalized_ext_names (snd (resolve demo_env ''nonexistent123'' empty_world)) ''nonexistent123'' = None \<and>
   import_calls (snd (resolve demo_env ''nonexistent123'' empty_world)) =
     [''markdown.extensions.nonexistent123'', ''nonexistent123'', ''mdx_nonexistent123''] \<and>
   import_calls (snd (resolve demo_env ''nonexistent123''
                        (snd (resolve demo_env ''nonexistent123'' empty_world)))) =
     [''markdown.extensions.nonexistent123'', ''nonexistent123'', ''mdx_nonexistent123'',
      ''markdown.extensions.nonexistent123'', ''nonexistent123'', ''mdx_nonexistent123'']"
  by (simp add: demo_resolve resolve_miss demo_unknown canonicalize_None_calls after_unknown_def)

section \<open>The config-call parser\<close>

lemma convert_num_Inr: "convert_num node = Inr c \<Longrightarrow> node = Constant c \<and> is_number node"
  by (induction node rule: convert_num.induct) auto

lemma negate_int_or_float: "is_int_or_float (negate E c) = is_int_or_float c"
  by (cases c) auto

lemma convert_signed_num_real:
  "convert_signed_num E node = Inr c \<Longrightarrow> is_int_or_float c \<Longrightarrow> is_signed_real node"
proof (induction E node rule: convert_signed_num.induct)
  case (2 E operand)
  then obtain d where d: "convert_num operand = Inr d" "c = negate E d"
    by (auto split: sum.splits)
  with 2 have "is_int_or_float d" by (simp add: negate_int_or_float)
  with d show ?case by (cases d) (auto dest: convert_num_Inr)
qed (auto dest!: convert_num_Inr elim!: is_int_or_float.elims)

lemma convert_num_imaginary:
  "convert_num node = Inr c \<Longrightarrow> is_complex c \<Longrightarrow> is_imaginary node"
  by (induction node rule: convert_num.induct) auto

lemma convert_accepts_literal_node:
  "convert E node = Inr v \<Longrightarrow> literal_node node"
  "convert_elts E elts = Inr vs \<Longrightarrow> \<forall>x \<in> set elts. literal_node x"
  "convert_set_elts E selts = Inr svs \<Longrightarrow> \<forall>x \<in> set selts. literal_node x"
  "convert_items E ks xs = Inr kvs \<Longrightarrow> length ks = length xs \<Longrightarrow>
     (\<forall>k \<in> set ks. case k of None \<Rightarrow> False | Some x \<Rightarrow> literal_node x) \<and>
     (\<forall>x \<in> set xs. literal_node x)"
proof (induction E node and E elts and E selts and E ks xs
       arbitrary: v and vs and svs and kvs
       rule: convert_convert_elts_convert_set_elts_convert_items.induct)
  case (7 E left op right)
  then show ?case
    by (auto split: sum.splits if_splits dest: convert_signed_num_real convert_num_imaginary)
next
  case (8 E op operand)
  then show ?case
    by (cases op) (auto split: sum.splits dest: convert_num_Inr)
next
  case (16 E k ks x xs)
  from "16.prems" obtain key kv v rest where
    k: "k = Some key" and ck: "convert E key = Inr kv" and cx: "convert E x = Inr v"
    and h: "hashable kv" and r: "convert_items E ks xs = Inr rest"
    by (auto split: sum.splits option.splits if_splits)
  from "16.IH"(1) [OF k ck] have lk: "literal_node key" .
  from "16.IH"(2) [OF k ck cx] have lx: "literal_node x" .
  from "16.IH"(3) [OF k ck cx _ r] h "16.prems"(2)
  have "(\<forall>k \<in> set ks. case k of None \<Rightarrow> False | Some x \<Rightarrow> literal_node x) \<and>
     (\<forall>x \<in> set xs. literal_node x)" by simp
  with k lk lx show ?case by simp
qed (auto split: sum.splits option.splits if_splits)


lemma convert_elts_map:
  "\<forall>x \<in> set elts. convert E x = Inr (f x) \<Longrightarrow> convert_elts E elts = Inr (map f elts)"
  by (induction elts) auto

lemma convert_spec_literal:
  "spec_literal node \<Longrightarrow> convert E node = Inr (literal_value node)"
proof (induction node rule: spec_literal.induct)
  case (6 elts)
  then have "convert_elts E elts = Inr (map literal_value elts)"
    by (intro convert_elts_map) simp
  then show ?case by simp
next
  case (7 elts)
  then have "convert_elts E elts = Inr (map literal_value elts)"
    by (intro convert_elts_map) simp
  then show ?case by simp
qed auto

lemma convert_reference_or_call: "reference_or_call node \<Longrightarrow> convert E node = Inl ValueError"
  by (cases node) auto

lemma eval_keywords_rejects:
  "\<exists>(k, v) \<in> set kws. \<not> literal_node v \<Longrightarrow> \<exists>e. eval_keywords E kws acc = Inl e"
proof (induction kws arbitrary: acc)
  case Nil
  then show ?case by simp
next
  case (Cons kv kws)
  obtain k v where kv: "kv = (k, v)" by (cases kv)
  show ?case
  proof (cases "literal_eval E v")
    case (Inl e)
    with kv show ?thesis by simp
  next
    case (Inr x)
    then have "literal_node v"
      by (auto simp: literal_eval_def dest: convert_accepts_literal_node(1))
    with Cons.prems kv have "\<exists>(k, v) \<in> set kws. \<not> literal_node v" by auto
    from Cons.IH [OF this] Inr kv show ?thesis by simp
  qed
qed

lemma eval_keywords_spec_literal:
  "\<forall>(k, v) \<in> set kws. spec_literal v \<Longrightarrow>
   eval_keywords E kws acc = Inr (keyword_config kws acc)"
  by (induction kws arbitrary: acc) (auto simp: literal_eval_def convert_spec_literal)

lemma eval_keywords_malformed:
  "\<forall>(k', v') \<in> set pre. spec_literal v' \<Longrightarrow> reference_or_call v \<Longrightarrow>
   eval_keywords E (pre @ (k, v) # post) acc = Inl ValueError"
  by (induction pre arbitrary: acc)
     (auto simp: literal_eval_def convert_spec_literal convert_reference_or_call)

lemma split_call:
  "parse_expression E t = Inr (Some (Call func args kws)) \<Longrightarrow>
   split_extension_config E t =
     (case solve_name (Some func) of
        Inl e \<Rightarrow> Inl e
      | Inr name \<Rightarrow>
         (case eval_keywords E kws Map.empty of
            Inl e \<Rightarrow> Inl e
          | Inr kwargs \<Rightarrow> Inr (name, kwargs)))"
  by (simp add: split_extension_config_def)

lemma split_not_call:
  "parse_expression E t = Inr (Some node) \<Longrightarrow> \<forall>f a k. node \<noteq> Call f a k \<Longrightarrow>
   split_extension_config E t =
     (case solve_name (Some node) of Inl e \<Rightarrow> Inl e | Inr name \<Rightarrow> Inr (name, Map.empty))"
  by (cases node) (simp_all add: split_extension_config_def)

text \<open>
  C7 (as the code has it). The keyword values of a call-form token \<^verbatim>\<open>name(...)\<close> are
  evaluated by \<^verbatim>\<open>ast.literal_eval\<close> and by nothing else. If some keyword value lies
  outside the grammar of \<^verbatim>\<open>ast.literal_eval\<close>, the token is rejected with an exception;
  if the first keyword value that is not a plain literal is a bare identifier, an
  attribute access or a call other than \<^verbatim>\<open>set()\<close>, the exception is the
  \<^verbatim>\<open>ValueError\<close> "malformed node or string". If every keyword value is a boolean, number
  or string or a list or tuple of such, the result is the pair of the name and the
  dictionary of the keyword values. A token that is a bare dotted name yields the name
  and the empty dictionary.
\<close>

theorem split_extension_config_literals:
  "(parse_expression E t = Inr (Some (Call func args kws)) \<and> solve_name (Some func) = Inr name \<longrightarrow>
      ((\<exists>(k, v) \<in> set kws. \<not> literal_node v) \<longrightarrow> (\<exists>e. split_extension_config E t = Inl e)) \<and>
      (\<forall>pre k v post.
          kws = pre @ (k, v) # post \<and> (\<forall>(k', v') \<in> set pre. spec_literal v') \<and> reference_or_call v \<longrightarrow>
          split_extension_config E t = Inl ValueError) \<and>
      ((\<forall>(k, v) \<in> set kws. spec_literal v) \<longrightarrow>
          split_extension_config E t = Inr (name, keyword_config kws Map.empty))) \<and>
   (parse_expression E t = Inr (Some node) \<and> (\<forall>f a k. node \<noteq> Call f a k) \<and>
    solve_name (Some node) = Inr name \<longrightarrow>
      split_extension_config E t = Inr (name, Map.empty))"
proof (intro conjI impI allI)
  assume a: "parse_expression E t = Inr (Some (Call func args kws)) \<and> solve_name (Some func) = Inr name"
    and "\<exists>(k, v) \<in> set kws. \<not> literal_node v"
  from eval_keywords_rejects [OF this(2)] obtain e where "eval_keywords E kws Map.empty = Inl e"
    by blast
  with a show "\<exists>e. split_extension_config E t = Inl e"
    by (simp add: split_call)
next
  fix pre k v post
  assume a: "parse_expression E t = Inr (Some (Call func args kws)) \<and> solve_name (Some func) = Inr name"
    and b: "kws = pre @ (k, v) # post \<and> (\<forall>(k', v') \<in> set pre. spec_literal v') \<and> reference_or_call v"
  from b have "eval_keywords E kws Map.empty = Inl ValueError"
    by (simp add: eval_keywords_malformed)
  with a show "split_extension_config E t = Inl ValueError"
    by (simp add: split_call)
next
  assume a: "parse_expression E t = Inr (Some (Call func args kws)) \<and> solve_name (Some func) = Inr name"
    and "\<forall>(k, v) \<in> set kws. spec_literal v"
  from eval_keywords_spec_literal [OF this(2)] a
  show "split_extension_config E t = Inr (name, keyword_config kws Map.empty)"
    by (simp add: split_call)
next
  assume "parse_expression E t = Inr (Some node) \<and> (\<forall>f a k. node \<noteq> Call f a k) \<and>
    solve_name (Some node) = Inr name"
  then show "split_extension_config E t = Inr (name, Map.empty)"
    by (simp add: split_not_call)
qed

text \<open>
  C10. Positional arguments of a call-form token contribute nothing: two tokens whose
  calls have the same callee and the same keywords get the same result, whatever their
  positional arguments are (literal or not), be it a pair or an exception.
\<close>

theorem positional_arguments_ignored:
  "parse_expression E t = Inr (Some (Call func args kws)) \<Longrightarrow>
   parse_expression E t' = Inr (Some (Call func args' kws)) \<Longrightarrow>
   split_extension_config E t = split_extension_config E t'"
  by (simp add: split_call)

lemma demo_parse_expression:
  "parse_expression demo_env ''toc(permalink=True)'' =
     Inr (Some (Call (Name ''toc'') [] [(Some ''permalink'', Constant (CBool True))]))"
  "parse_expression demo_env ''toc(anchor, permalink=True)'' =
     Inr (Some (Call (Name ''toc'') [Name ''anchor''] [(Some ''permalink'', Constant (CBool True))]))"
  "parse_expression demo_env ''toc(1, permalink=True)'' =
     Inr (Some (Call (Name ''toc'') [Constant (CInt 1)] [(Some ''permalink'', Constant (CBool True))]))"
  "parse_expression demo_env ''toc(permalink=yes)'' =
     Inr (Some (Call (Name ''toc'') [] [(Some ''permalink'', Name ''yes'')]))"
  "parse_expression demo_env ''toc(permalink=str(1))'' =
     Inr (Some (Call (Name ''toc'') [] [(Some ''permalink'', Call (Name ''str'') [Constant (CInt 1)] [])]))"
  "parse_expression demo_env ''toc(baselevel=set())'' =
     Inr (Some (Call (Name ''toc'') [] [(Some ''baselevel'', Call (Name ''set'') [] [])]))"
  "parse_expression demo_env ''toc'' = Inr (Some (Name ''toc''))"
  by (simp_all add: parse_expression_def demo_env_def demo_parse_def)

theorem positional_arguments_ignored_witness:
  "parse_expression demo_env ''toc(anchor, permalink=True)'' =
     Inr (Some (Call (Name ''toc'') [Name ''anchor''] [(Some ''permalink'', Constant (CBool True))])) \<and>
   parse_expression demo_env ''toc(permalink=True)'' =
     Inr (Some (Call (Name ''toc'') [] [(Some ''permalink'', Constant (CBool True))])) \<and>
   split_extension_config demo_env ''toc(anchor, permalink=True)'' =
     split_extension_config demo_env ''toc(permalink=True)'' \<and>
   split_extension_config demo_env ''toc(anchor, permalink=True)'' =
     Inr (''toc'', [Some ''permalink'' \<mapsto> VConst (CBool True)])"
proof -
  have r: "split_extension_config demo_env ''toc(permalink=True)'' =
     Inr (''toc'', [Some ''permalink'' \<mapsto> VConst (CBool True)])"
    by (simp add: split_call demo_parse_expression solve_name_def literal_eval_def)
  show ?thesis
    using positional_arguments_ignored [OF demo_parse_expression(2) demo_parse_expression(1)]
      demo_parse_expression(1,2) r
    by simp
qed


theorem split_extension_config_literals_witness:
  "parse_expression demo_env ''toc(permalink=True)'' =
     Inr (Some (Call (Name ''toc'') [] [(Some ''permalink'', Constant (CBool True))])) \<and>
   solve_name (Some (Name ''toc'')) = Inr ''toc'' \<and>
   spec_literal (Constant (CBool True)) \<and>
   split_extension_config demo_env ''toc(permalink=True)'' =
     Inr (''toc'', [Some ''permalink'' \<mapsto> VConst (CBool True)]) \<and>
   parse_expression demo_env ''toc(permalink=yes)'' =
     Inr (Some (Call (Name ''toc'') [] [(Some ''permalink'', Name ''yes'')])) \<and>
   (\<exists>(k, v) \<in> set [(Some ''permalink'', Name ''yes'')]. \<not> literal_node v) \<and>
   reference_or_call (Name ''yes'') \<and>
   split_extension_config demo_env ''toc(permalink=yes)'' = Inl ValueError \<and>
   parse_expression demo_env ''toc(permalink=str(1))'' =
     Inr (Some (Call (Name ''toc'') []
                  [(Some ''permalink'', Call (Name ''str'') [Constant (CInt 1)] [])])) \<and>
   reference_or_call (Call (Name ''str'') [Constant (CInt 1)] []) \<and>
   split_extension_config demo_env ''toc(permalink=str(1))'' = Inl ValueError \<and>
   parse_expression demo_env ''toc'' = Inr (Some (Name ''toc'')) \<and>
   split_extension_config demo_env ''toc'' = Inr (''toc'', Map.empty)"
proof -
  have n: "solve_name (Some (Name ''toc'')) = Inr ''toc''"
    by (simp add: solve_name_def)
  have a: "split_extension_config demo_env ''toc(permalink=True)'' =
     Inr (''toc'', [Some ''permalink'' \<mapsto> VConst (CBool True)])"
    using split_extension_config_literals
      [where E = demo_env and t = "''toc(permalink=True)''" and func = "Name ''toc''"
         and args = "[]" and kws = "[(Some ''permalink'', Constant (CBool True))]"
         and name = "''toc''" and node = OtherExpr]
      demo_parse_expression(1) n
    by simp
  have "\<forall>pre k v post.
          [(Some ''permalink'', Name ''yes'')] = pre @ (k, v) # post \<and>
          (\<forall>(k', v') \<in> set pre. spec_literal v') \<and> reference_or_call v \<longrightarrow>
          split_extension_config demo_env ''toc(permalink=yes)'' = Inl ValueError"
    using split_extension_config_literals
      [where E = demo_env and t = "''toc(permalink=yes)''" and func = "Name ''toc''"
         and args = "[]" and kws = "[(Some ''permalink'', Name ''yes'')]"
         and name = "''toc''" and node = OtherExpr]
      demo_parse_expression(4) n
    by blast
  from this [rule_format, of "[]" "Some ''permalink''" "Name ''yes''" "[]"]
  have b: "split_extension_config demo_env ''toc(permalink=yes)'' = Inl ValueError"
    by simp
  have "\<forall>pre k v post.
          [(Some ''permalink'', Call (Name ''str'') [Constant (CInt 1)] [])] = pre @ (k, v) # post \<and>
          (\<forall>(k', v') \<in> set pre. spec_literal v') \<and> reference_or_call v \<longrightarrow>
          split_extension_config demo_env ''toc(permalink=str(1))'' = Inl ValueError"
    using split_extension_config_literals
      [where E = demo_env and t = "''toc(permalink=str(1))''" and func = "Name ''toc''"
         and args = "[]" and kws = "[(Some ''permalink'', Call (Name ''str'') [Constant (CInt 1)] [])]"
         and name = "''toc''" and node = OtherExpr]
      demo_parse_expression(5) n
    by blast
  from this [rule_format, of "[]" "Some ''permalink''" "Call (Name ''str'') [Constant (CInt 1)] []" "[]"]
  have c: "split_extension_config demo_env ''toc(permalink=str(1))'' = Inl ValueError"
    by simp
  have d: "split_extension_config demo_env ''toc'' = Inr (''toc'', Map.empty)"
    using split_extension_config_literals
      [where E = demo_env and t = "''toc''" and func = OtherExpr
         and args = "[]" and kws = "[]" and name = "''toc''" and node = "Name ''toc''"]
      demo_parse_expression(7) n
    by simp
  show ?thesis
    using a b c d n demo_parse_expression by simp
qed

text \<open>
  C7 as stated counts a nested call among the values that are rejected. The call
  \<^verbatim>\<open>set()\<close> is a nested call, and \<^verbatim>\<open>ast.literal_eval\<close> accepts it as the empty set.
\<close>

theorem nested_call_rejected_counterexample:
  "parse_expression demo_env ''toc(baselevel=set())'' =
     Inr (Some (Call (Name ''toc'') [] [(Some ''baselevel'', Call (Name ''set'') [] [])])) \<and>
   split_extension_config demo_env ''toc(baselevel=set())'' =
     Inr (''toc'', [Some ''baselevel'' \<mapsto> VSet []])"
  by (simp add: split_call demo_parse_expression solve_name_def literal_eval_def)

section \<open>The extension set resolver\<close>

lemma apply_loop_append:
  "apply_loop E (xs @ ys) acc w =
     (case apply_loop E xs acc w of
        (Inl e, w') \<Rightarrow> (Inl e, w')
      | (Inr acc', w') \<Rightarrow> apply_loop E ys acc' w')"
  by (induction xs arbitrary: acc w) (auto split: prod.splits sum.splits)

lemma apply_extension_mathjax:
  "apply_extension E ''mathjax'' acc w =
     (Inr (acc\<lparr>extension_configs := (extension_configs acc)(''mdx_math'' \<mapsto> mathjax_config)\<rparr>), w)"
  by (simp add: apply_extension_def)

lemma apply_extension_remove_extra:
  "apply_extension E ''remove_extra'' acc w =
     (Inr (acc\<lparr>extension_names :=
             extension_names acc - {''markdown.extensions.extra''} - {''mdx_math''}\<rparr>), w)"
  by (simp add: apply_extension_def)

lemma apply_extension_other:
  "t \<noteq> ''mathjax'' \<Longrightarrow> t \<noteq> ''remove_extra'' \<Longrightarrow>
   apply_extension E t acc w =
     (case split_extension_config E t of
        Inl e \<Rightarrow> (Inl e, w)
      | Inr (name, config) \<Rightarrow>
         (case resolve E name w of
            (Inl e, w') \<Rightarrow> (Inl e, w')
          | (Inr None, w') \<Rightarrow>
              (if filter_raises E (does_not_exist t) then
                 (Inl (WarningRaised (does_not_exist t)),
                  w'\<lparr>warned := warned w' @ [does_not_exist t]\<rparr>)
               else (Inr acc, w'\<lparr>warned := warned w' @ [does_not_exist t]\<rparr>))
          | (Inr (Some c), w') \<Rightarrow>
              (Inr (acc\<lparr>extension_names := insert c (extension_names acc),
                         extension_configs := (extension_configs acc)(c \<mapsto> config)\<rparr>), w')))"
  by (simp add: apply_extension_def)

text \<open>What a completed step does to the accumulator: one of three shapes.\<close>

lemma apply_extension_shapes:
  assumes "apply_extension E t acc w = (Inr acc', w')"
  shows "acc' = acc\<lparr>extension_configs := (extension_configs acc)(''mdx_math'' \<mapsto> mathjax_config)\<rparr> \<and> t = ''mathjax'' \<or>
         acc' = acc\<lparr>extension_names := extension_names acc - {''markdown.extensions.extra''} - {''mdx_math''}\<rparr> \<and> t = ''remove_extra'' \<or>
         acc' = acc \<and> t \<noteq> ''mathjax'' \<and> t \<noteq> ''remove_extra'' \<or>
         (\<exists>n cfg c w0. t \<noteq> ''mathjax'' \<and> t \<noteq> ''remove_extra'' \<and>
            split_extension_config E t = Inr (n, cfg) \<and> resolve E n w = (Inr (Some c), w0) \<and>
            acc' = acc\<lparr>extension_names := insert c (extension_names acc),
                       extension_configs := (extension_configs acc)(c \<mapsto> cfg)\<rparr>)"
  using assms
  by (cases "t = ''mathjax''"; cases "t = ''remove_extra''")
     (auto simp: apply_extension_mathjax apply_extension_remove_extra apply_extension_other
           split: sum.splits prod.splits option.splits if_splits)

lemma apply_extension_covered:
  assumes "apply_extension E t acc w = (Inr acc', w')"
    and "extension_names acc \<subseteq> dom (extension_configs acc) \<union> B"
  shows "extension_names acc' \<subseteq> dom (extension_configs acc') \<union> B"
  using apply_extension_shapes [OF assms(1)] assms(2) by auto

lemma apply_loop_covered:
  "apply_loop E ts acc w = (Inr acc', w') \<Longrightarrow>
   extension_names acc \<subseteq> dom (extension_configs acc) \<union> B \<Longrightarrow>
   extension_names acc' \<subseteq> dom (extension_configs acc') \<union> B"
proof (induction ts arbitrary: acc w)
  case Nil
  then show ?case by simp
next
  case (Cons t ts)
  from Cons.prems(1) obtain acc1 w1 where
    s: "apply_extension E t acc w = (Inr acc1, w1)" and r: "apply_loop E ts acc1 w1 = (Inr acc', w')"
    by (auto split: prod.splits sum.splits)
  show ?case by (rule Cons.IH [OF r apply_extension_covered [OF s Cons.prems(2)]])
qed

lemma apply_extensions_Inr:
  "apply_extensions E self w = (Inr self', w') \<Longrightarrow>
   \<exists>acc. apply_loop E (requested_extensions self @ global_extensions self @ document_extensions self)
           initial w = (Inr acc, w') \<and>
         extensions self' = extension_names acc \<and>
         markup_extension_configs self' = extension_configs acc"
  by (auto simp: apply_extensions_def split: prod.splits sum.splits)

text \<open>
  C3 (as the code has it). After a run of \<^verbatim>\<open>_apply_extensions\<close> that returns, every name
  in the resulting set of names other than the two baseline names
  \<^verbatim>\<open>markdown.extensions.extra\<close> and \<^verbatim>\<open>mdx_math\<close> has an entry in the configurations. The
  baseline names enter the initial accumulator without an entry.
\<close>

theorem names_have_configs_except_baseline:
  "apply_extensions E self w = (Inr self', w') \<Longrightarrow>
   extensions self' \<subseteq>
     dom (markup_extension_configs self') \<union> {''markdown.extensions.extra'', ''mdx_math''}"
proof -
  assume "apply_extensions E self w = (Inr self', w')"
  from apply_extensions_Inr [OF this] obtain acc where
    l: "apply_loop E (requested_extensions self @ global_extensions self @ document_extensions self)
           initial w = (Inr acc, w')"
    and e: "extensions self' = extension_names acc" "markup_extension_configs self' = extension_configs acc"
    by blast
  have "extension_names initial \<subseteq>
      dom (extension_configs initial) \<union> {''markdown.extensions.extra'', ''mdx_math''}"
    by (simp add: initial_def)
  from apply_loop_covered [OF l this] e show ?thesis by simp
qed


lemma demo_split:
  "split_extension_config demo_env ''toc'' = Inr (''toc'', Map.empty)"
  "split_extension_config demo_env ''extra'' = Inr (''extra'', Map.empty)"
  "split_extension_config demo_env ''mdx_math'' = Inr (''mdx_math'', Map.empty)"
  "split_extension_config demo_env ''nonexistent123'' = Inr (''nonexistent123'', Map.empty)"
  "split_extension_config demo_env ''toc(permalink=True)'' =
     Inr (''toc'', [Some ''permalink'' \<mapsto> VConst (CBool True)])"
  by (simp_all add: split_extension_config_def parse_expression_def demo_env_def demo_parse_def
        solve_name_def literal_eval_def)

lemma demo_canonicalize:
  "fst (canonicalize_extension_name demo_env ''toc'') = Inr (Some ''markdown.extensions.toc'')"
  "fst (canonicalize_extension_name demo_env ''extra'') = Inr (Some ''markdown.extensions.extra'')"
  "fst (canonicalize_extension_name demo_env ''mdx_math'') = Inr (Some ''mdx_math'')"
  "fst (canonicalize_extension_name demo_env ''nonexistent123'') = Inr None"
  by (simp_all add: canonicalize_extension_name_def prefixes_def demo_env_def demo_import_def
        caught_def)

lemma resolve_fresh:
  "canonicalized_ext_names w n = None \<Longrightarrow>
   fst (canonicalize_extension_name E n) = Inr (Some c) \<Longrightarrow>
   resolve E n w =
     (Inr (Some c),
      w\<lparr>import_calls := import_calls w @ snd (canonicalize_extension_name E n),
        canonicalized_ext_names := (canonicalized_ext_names w)(n \<mapsto> c)\<rparr>)"
  "canonicalized_ext_names w n = None \<Longrightarrow>
   fst (canonicalize_extension_name E n) = Inr None \<Longrightarrow>
   resolve E n w =
     (Inr None, w\<lparr>import_calls := import_calls w @ snd (canonicalize_extension_name E n)\<rparr>)"
  by (simp_all add: resolve_miss)

lemma demo_run_toc:
  "fst (apply_extensions demo_env (new_markup [''toc(permalink=True)''] [] []) empty_world) =
     Inr ((new_markup [''toc(permalink=True)''] [] [])
           \<lparr>extensions := {''markdown.extensions.toc'', ''markdown.extensions.extra'', ''mdx_math''},
            markup_extension_configs :=
              [''markdown.extensions.toc'' \<mapsto> [Some ''permalink'' \<mapsto> VConst (CBool True)]]\<rparr>)"
  by (simp add: apply_extensions_def new_markup_def initial_def empty_world_def
        apply_extension_other demo_split resolve_fresh demo_canonicalize)

theorem names_have_configs_except_baseline_witness:
  "fst (apply_extensions demo_env (new_markup [''toc(permalink=True)''] [] []) empty_world) =
     Inr ((new_markup [''toc(permalink=True)''] [] [])
           \<lparr>extensions := {''markdown.extensions.toc'', ''markdown.extensions.extra'', ''mdx_math''},
            markup_extension_configs :=
              [''markdown.extensions.toc'' \<mapsto> [Some ''permalink'' \<mapsto> VConst (CBool True)]]\<rparr>) \<and>
   {''markdown.extensions.toc'', ''markdown.extensions.extra'', ''mdx_math''} \<subseteq>
     dom [''markdown.extensions.toc'' \<mapsto> [Some ''permalink'' \<mapsto> VConst (CBool True)]] \<union>
     {''markdown.extensions.extra'', ''mdx_math''}"
proof -
  obtain self' w' where
    r: "apply_extensions demo_env (new_markup [''toc(permalink=True)''] [] []) empty_world = (Inr self', w')"
    and s: "self' = (new_markup [''toc(permalink=True)''] [] [])
           \<lparr>extensions := {''markdown.extensions.toc'', ''markdown.extensions.extra'', ''mdx_math''},
            markup_extension_configs :=
              [''markdown.extensions.toc'' \<mapsto> [Some ''permalink'' \<mapsto> VConst (CBool True)]]\<rparr>"
    using demo_run_toc by (metis prod.collapse)
  from names_have_configs_except_baseline [OF r] s demo_run_toc show ?thesis
    by simp
qed

text \<open>
  C3 as stated includes the two baseline names. With no token at all the run returns
  both names and an empty dictionary of configurations.
\<close>

theorem baseline_names_have_configs_counterexample:
  "completes (apply_extensions demo_env (new_markup [] [] []) empty_world) \<and>
   ''mdx_math'' \<in> names_of (apply_extensions demo_env (new_markup [] [] []) empty_world) \<and>
   configs_of (apply_extensions demo_env (new_markup [] [] []) empty_world) ''mdx_math'' = None \<and>
   ''markdown.extensions.extra'' \<in> names_of (apply_extensions demo_env (new_markup [] [] []) empty_world) \<and>
   configs_of (apply_extensions demo_env (new_markup [] [] []) empty_world)
     ''markdown.extensions.extra'' = None"
  by (simp add: completes_def names_of_def configs_of_def apply_extensions_def new_markup_def
        initial_def)

lemma apply_extension_grows:
  assumes "apply_extension E t acc w = (Inr acc', w')" and "t \<noteq> ''remove_extra''"
  shows "extension_names acc \<subseteq> extension_names acc'"
  using apply_extension_shapes [OF assms(1)] assms(2) by auto

lemma apply_extension_keeps_other:
  assumes "apply_extension E t acc w = (Inr acc', w')"
    and "c \<in> extension_names acc" and "c \<noteq> ''markdown.extensions.extra''" and "c \<noteq> ''mdx_math''"
  shows "c \<in> extension_names acc'"
  using apply_extension_shapes [OF assms(1)] assms(2-) by auto

lemma apply_loop_grows:
  "apply_loop E ts acc w = (Inr acc', w') \<Longrightarrow> ''remove_extra'' \<notin> set ts \<Longrightarrow>
   extension_names acc \<subseteq> extension_names acc'"
proof (induction ts arbitrary: acc w)
  case Nil
  then show ?case by simp
next
  case (Cons t ts)
  from Cons.prems(1) obtain acc1 w1 where
    s: "apply_extension E t acc w = (Inr acc1, w1)" and r: "apply_loop E ts acc1 w1 = (Inr acc', w')"
    by (auto split: prod.splits sum.splits)
  from Cons.prems(2) have "t \<noteq> ''remove_extra''" "''remove_extra'' \<notin> set ts" by auto
  with apply_extension_grows [OF s] Cons.IH [OF r] show ?case by blast
qed

lemma apply_loop_keeps_other:
  "apply_loop E ts acc w = (Inr acc', w') \<Longrightarrow> c \<in> extension_names acc \<Longrightarrow>
   c \<noteq> ''markdown.extensions.extra'' \<Longrightarrow> c \<noteq> ''mdx_math'' \<Longrightarrow> c \<in> extension_names acc'"
proof (induction ts arbitrary: acc w)
  case Nil
  then show ?case by simp
next
  case (Cons t ts)
  from Cons.prems(1) obtain acc1 w1 where
    s: "apply_extension E t acc w = (Inr acc1, w1)" and r: "apply_loop E ts acc1 w1 = (Inr acc', w')"
    by (auto split: prod.splits sum.splits)
  from apply_extension_keeps_other [OF s Cons.prems(2-)] Cons.IH [OF r] Cons.prems(3-)
  show ?case by blast
qed

text \<open>The cache stays consistent with the installation.\<close>

lemma resolve_consistent:
  assumes "cache_consistent E w" and "resolve E n w = (r, w')"
  shows "cache_consistent E w'"
proof (cases "canonicalized_ext_names w n")
  case (Some c)
  with assms show ?thesis by (simp add: resolve_hit)
next
  case None
  show ?thesis
  proof (cases "fst (canonicalize_extension_name E n)")
    case (Inl e)
    with None assms(2) have "canonicalized_ext_names w' = canonicalized_ext_names w"
      by (auto simp: resolve_miss)
    with assms(1) show ?thesis by (simp add: cache_consistent_def)
  next
    case (Inr res)
    show ?thesis
    proof (cases res)
      case N: None
      with Inr None assms(2) have "canonicalized_ext_names w' = canonicalized_ext_names w"
        by (auto simp: resolve_miss)
      with assms(1) show ?thesis by (simp add: cache_consistent_def)
    next
      case (Some c)
      with Inr None assms(2) have "canonicalized_ext_names w' = (canonicalized_ext_names w)(n \<mapsto> c)"
        by (auto simp: resolve_miss)
      with assms(1) Inr Some show ?thesis by (simp add: cache_consistent_def)
    qed
  qed
qed

lemma resolve_result:
  assumes "cache_consistent E w" and "resolve E n w = (Inr r, w')"
  shows "fst (canonicalize_extension_name E n) = Inr r"
proof (cases "canonicalized_ext_names w n")
  case (Some c)
  with assms(2) have "r = Some c" by (simp add: resolve_hit)
  with assms(1) Some show ?thesis by (simp add: cache_consistent_def)
next
  case None
  show ?thesis
  proof (cases "fst (canonicalize_extension_name E n)")
    case (Inl e)
    with None assms(2) show ?thesis by (simp add: resolve_miss)
  next
    case (Inr res)
    with None assms(2) show ?thesis by (cases res) (auto simp: resolve_miss)
  qed
qed

lemma apply_extension_consistent:
  assumes "cache_consistent E w" and "apply_extension E t acc w = (r, w')"
  shows "cache_consistent E w'"
proof (cases "t = ''mathjax'' \<or> t = ''remove_extra''")
  case True
  with assms show ?thesis
    by (auto simp: apply_extension_mathjax apply_extension_remove_extra)
next
  case False
  then have t: "t \<noteq> ''mathjax''" "t \<noteq> ''remove_extra''" by auto
  show ?thesis
  proof (cases "split_extension_config E t")
    case (Inl e)
    with assms t show ?thesis by (simp add: apply_extension_other)
  next
    case (Inr nc)
    obtain n cfg where nc: "nc = (n, cfg)" by (cases nc)
    obtain r0 w0 where res: "resolve E n w = (r0, w0)" by (cases "resolve E n w")
    from resolve_consistent [OF assms(1) res] have c0: "cache_consistent E w0" .
    from assms(2) t Inr nc res have "canonicalized_ext_names w' = canonicalized_ext_names w0"
      by (auto simp: apply_extension_other split: sum.splits option.splits if_splits)
    with c0 show ?thesis by (simp add: cache_consistent_def)
  qed
qed

lemma apply_loop_consistent:
  "cache_consistent E w \<Longrightarrow> apply_loop E ts acc w = (r, w') \<Longrightarrow> cache_consistent E w'"
proof (induction ts arbitrary: acc w)
  case Nil
  then show ?case by simp
next
  case (Cons t ts)
  obtain r1 w1 where s: "apply_extension E t acc w = (r1, w1)"
    by (cases "apply_extension E t acc w")
  from apply_extension_consistent [OF Cons.prems(1) s] have c1: "cache_consistent E w1" .
  show ?case
  proof (cases r1)
    case (Inl e)
    with s Cons.prems(2) c1 show ?thesis by simp
  next
    case (Inr acc1)
    with s Cons.prems(2) have "apply_loop E ts acc1 w1 = (r, w')" by simp
    from Cons.IH [OF c1 this] show ?thesis .
  qed
qed

text \<open>A completed step changes the configuration of a canonical name only through a
  token that names it, or through \<^verbatim>\<open>mathjax\<close> for \<^verbatim>\<open>mdx_math\<close>.\<close>

lemma apply_extension_math_config:
  assumes con: "cache_consistent E w" and step: "apply_extension E t acc w = (Inr acc', w')"
    and other: "\<not> names_one_of E [''math'', ''mdx_math''] t"
    and cfg: "extension_configs acc ''mdx_math'' = Some mathjax_config"
  shows "extension_configs acc' ''mdx_math'' = Some mathjax_config"
proof -
  from apply_extension_shapes [OF step]
  consider "extension_configs acc' = (extension_configs acc)(''mdx_math'' \<mapsto> mathjax_config)"
    | "extension_configs acc' = extension_configs acc"
    | n cfg c w0 where "t \<noteq> ''mathjax''" "t \<noteq> ''remove_extra''"
        "split_extension_config E t = Inr (n, cfg)" "resolve E n w = (Inr (Some c), w0)"
        "extension_configs acc' = (extension_configs acc)(c \<mapsto> cfg)"
    by auto
  then show ?thesis
  proof cases
    case 1
    then show ?thesis by simp
  next
    case 2
    with cfg show ?thesis by simp
  next
    case 3
    from other 3(1-3) have n: "n \<noteq> ''math''" "n \<noteq> ''mdx_math''"
      by (auto simp: names_one_of_def)
    from resolve_result [OF con 3(4)] have "c = ''markdown.extensions.'' @ n \<or> c = n \<or> c = ''mdx_'' @ n"
      by (rule canonicalize_Some)
    with n have "c \<noteq> ''mdx_math''" by auto
    with 3(5) cfg show ?thesis by simp
  qed
qed

lemma apply_loop_math_config:
  "cache_consistent E w \<Longrightarrow> apply_loop E ts acc w = (Inr acc', w') \<Longrightarrow>
   \<forall>t \<in> set ts. \<not> names_one_of E [''math'', ''mdx_math''] t \<Longrightarrow>
   extension_configs acc ''mdx_math'' = Some mathjax_config \<Longrightarrow>
   extension_configs acc' ''mdx_math'' = Some mathjax_config"
proof (induction ts arbitrary: acc w)
  case Nil
  then show ?case by simp
next
  case (Cons t ts)
  from Cons.prems(2) obtain acc1 w1 where
    s: "apply_extension E t acc w = (Inr acc1, w1)" and r: "apply_loop E ts acc1 w1 = (Inr acc', w')"
    by (auto split: prod.splits sum.splits)
  from Cons.prems(3) have o: "\<not> names_one_of E [''math'', ''mdx_math''] t"
    "\<forall>t \<in> set ts. \<not> names_one_of E [''math'', ''mdx_math''] t" by auto
  from apply_extension_math_config [OF Cons.prems(1) s o(1) Cons.prems(4)]
  have c1: "extension_configs acc1 ''mdx_math'' = Some mathjax_config" .
  from apply_extension_consistent [OF Cons.prems(1) s] have "cache_consistent E w1" .
  from Cons.IH [OF this r o(2) c1] show ?case .
qed

text \<open>
  C4 (as the code has it). The token \<^verbatim>\<open>mathjax\<close> is not canonicalized: its step only
  stores the configuration \<^verbatim>\<open>{'enable_dollar_delimiter': True}\<close> under \<^verbatim>\<open>mdx_math\<close> and
  leaves the names and the world as they are. For a run that returns, in a process whose
  cache agrees with the installation, and whose tokens contain \<^verbatim>\<open>mathjax\<close> at any
  position: if no token is \<^verbatim>\<open>remove_extra\<close>, then
  \<^verbatim>\<open>mdx_math\<close> is in the final names; and if no token after that \<^verbatim>\<open>mathjax\<close> names
  \<^verbatim>\<open>math\<close> or \<^verbatim>\<open>mdx_math\<close>, the final configuration of \<^verbatim>\<open>mdx_math\<close> is the fixed one.
\<close>

theorem mathjax_marks_math_extension:
  assumes con: "cache_consistent E w"
    and tokens: "requested_extensions self @ global_extensions self @ document_extensions self =
                   pre @ ''mathjax'' # post"
    and run: "apply_extensions E self w = (Inr self', w')"
  shows "apply_extension E ''mathjax'' acc w0 =
           (Inr (acc\<lparr>extension_configs := (extension_configs acc)(''mdx_math'' \<mapsto> mathjax_config)\<rparr>), w0) \<and>
         (''remove_extra'' \<notin> set pre \<and> ''remove_extra'' \<notin> set post \<longrightarrow>
            ''mdx_math'' \<in> extensions self') \<and>
         ((\<forall>t \<in> set post. \<not> names_one_of E [''math'', ''mdx_math''] t) \<longrightarrow>
            markup_extension_configs self' ''mdx_math'' = Some mathjax_config)"
proof (intro conjI impI)
  show "apply_extension E ''mathjax'' acc w0 =
           (Inr (acc\<lparr>extension_configs := (extension_configs acc)(''mdx_math'' \<mapsto> mathjax_config)\<rparr>), w0)"
    by (rule apply_extension_mathjax)
next
  from apply_extensions_Inr [OF run] tokens obtain a where
    l: "apply_loop E (pre @ ''mathjax'' # post) initial w = (Inr a, w')"
    and e: "extensions self' = extension_names a" "markup_extension_configs self' = extension_configs a"
    by auto
  {
    assume "''remove_extra'' \<notin> set pre \<and> ''remove_extra'' \<notin> set post"
    then have "''remove_extra'' \<notin> set (pre @ ''mathjax'' # post)" by simp
    from apply_loop_grows [OF l this] have "''mdx_math'' \<in> extension_names a"
      by (auto simp: initial_def)
    with e show "''mdx_math'' \<in> extensions self'" by simp
  }
  {
    assume o: "\<forall>t \<in> set post. \<not> names_one_of E [''math'', ''mdx_math''] t"
    from l obtain a1 w1 where p: "apply_loop E pre initial w = (Inr a1, w1)"
      and q: "apply_loop E (''mathjax'' # post) a1 w1 = (Inr a, w')"
      by (auto simp: apply_loop_append split: prod.splits sum.splits)
    from q have q': "apply_loop E post
        (a1\<lparr>extension_configs := (extension_configs a1)(''mdx_math'' \<mapsto> mathjax_config)\<rparr>) w1 = (Inr a, w')"
      by (simp add: apply_extension_mathjax)
    from apply_loop_consistent [OF con p] have "cache_consistent E w1" .
    from apply_loop_math_config [OF this q' o] have "extension_configs a ''mdx_math'' = Some mathjax_config"
      by simp
    with e show "markup_extension_configs self' ''mdx_math'' = Some mathjax_config" by simp
  }
qed

lemma demo_consistent: "cache_consistent demo_env empty_world"
  by (simp add: cache_consistent_def empty_world_def)

lemma demo_run_mathjax:
  "fst (apply_extensions demo_env (new_markup [''mathjax''] [] [''toc'']) empty_world) =
     Inr ((new_markup [''mathjax''] [] [''toc''])
           \<lparr>extensions := {''markdown.extensions.toc'', ''markdown.extensions.extra'', ''mdx_math''},
            markup_extension_configs :=
              [''mdx_math'' \<mapsto> mathjax_config, ''markdown.extensions.toc'' \<mapsto> Map.empty]\<rparr>)"
  by (simp add: apply_extensions_def new_markup_def initial_def empty_world_def
        apply_extension_mathjax apply_extension_other demo_split resolve_fresh demo_canonicalize)

theorem mathjax_marks_math_extension_witness:
  "cache_consistent demo_env empty_world \<and>
   requested_extensions (new_markup [''mathjax''] [] [''toc'']) @
     global_extensions (new_markup [''mathjax''] [] [''toc'']) @
     document_extensions (new_markup [''mathjax''] [] [''toc'']) = [] @ ''mathjax'' # [''toc''] \<and>
   completes (apply_extensions demo_env (new_markup [''mathjax''] [] [''toc'']) empty_world) \<and>
   ''mdx_math'' \<in> names_of (apply_extensions demo_env (new_markup [''mathjax''] [] [''toc'']) empty_world) \<and>
   configs_of (apply_extensions demo_env (new_markup [''mathjax''] [] [''toc'']) empty_world) ''mdx_math'' =
     Some [Some ''enable_dollar_delimiter'' \<mapsto> VConst (CBool True)]"
proof -
  let ?m = "new_markup [''mathjax''] [] [''toc'']"
  obtain self' w' where r: "apply_extensions demo_env ?m empty_world = (Inr self', w')"
    using demo_run_mathjax by (metis prod.collapse)
  have t: "requested_extensions ?m @ global_extensions ?m @ document_extensions ?m =
      [] @ ''mathjax'' # [''toc'']"
    by (simp add: new_markup_def)
  have o: "\<forall>t \<in> set [''toc'']. \<not> names_one_of demo_env [''math'', ''mdx_math''] t"
    by (simp add: names_one_of_def demo_split)
  from mathjax_marks_math_extension [OF demo_consistent t r, of initial empty_world] o
  have "''mdx_math'' \<in> extensions self'" "markup_extension_configs self' ''mdx_math'' = Some mathjax_config"
    by simp_all
  with r t demo_consistent show ?thesis
    by (simp add: completes_def names_of_def configs_of_def mathjax_config_def)
qed

text \<open>
  C4 as stated has \<^verbatim>\<open>mdx_math\<close> in the final names wherever \<^verbatim>\<open>mathjax\<close> stands. The
  token does not add the name; it is a baseline name, and \<^verbatim>\<open>remove_extra\<close> after
  \<^verbatim>\<open>mathjax\<close> removes it.
\<close>

theorem mathjax_then_remove_extra_counterexample:
  "completes (apply_extensions demo_env (new_markup [''mathjax'', ''remove_extra''] [] []) empty_world) \<and>
   ''mdx_math'' \<notin>
     names_of (apply_extensions demo_env (new_markup [''mathjax'', ''remove_extra''] [] []) empty_world)"
  by (simp add: completes_def names_of_def apply_extensions_def new_markup_def initial_def
        apply_extension_mathjax apply_extension_remove_extra)

text \<open>
  C5 (as the code has it). Split the tokens of a run that returns, in a process whose
  cache agrees with the installation, into a part already processed and the rest. A name that is in the set after the first part is in the final
  set when no \<^verbatim>\<open>remove_extra\<close> follows, and also, whatever follows, when it is not one
  of the two baseline names. Right after a \<^verbatim>\<open>remove_extra\<close> neither baseline name is in
  the set, whoever added it. Right after a token that resolves to a canonical name, that
  name is in the set.
\<close>

theorem remove_extra_in_encounter_order:
  assumes con: "cache_consistent E w"
    and tokens: "requested_extensions self @ global_extensions self @ document_extensions self =
                   pre @ post"
    and mid: "apply_loop E pre initial w = (Inr acc, w1)"
    and run: "apply_extensions E self w = (Inr self', w')"
  shows "(c \<in> extension_names acc \<and> ''remove_extra'' \<notin> set post \<longrightarrow> c \<in> extensions self') \<and>
         (c \<in> extension_names acc \<and> c \<noteq> ''markdown.extensions.extra'' \<and> c \<noteq> ''mdx_math'' \<longrightarrow>
            c \<in> extensions self') \<and>
         ((\<exists>pre'. pre = pre' @ [''remove_extra'']) \<longrightarrow>
            ''markdown.extensions.extra'' \<notin> extension_names acc \<and> ''mdx_math'' \<notin> extension_names acc) \<and>
         (\<forall>pre' t n cfg.
            pre = pre' @ [t] \<and> t \<noteq> ''mathjax'' \<and> t \<noteq> ''remove_extra'' \<and>
            split_extension_config E t = Inr (n, cfg) \<and>
            fst (canonicalize_extension_name E n) = Inr (Some c) \<longrightarrow>
            c \<in> extension_names acc)"
proof -
  from apply_extensions_Inr [OF run] tokens obtain a where
    l: "apply_loop E (pre @ post) initial w = (Inr a, w')"
    and e: "extensions self' = extension_names a"
    by auto
  from l mid have rest: "apply_loop E post acc w1 = (Inr a, w')"
    by (simp add: apply_loop_append)
  have 1: "c \<in> extension_names acc \<and> ''remove_extra'' \<notin> set post \<longrightarrow> c \<in> extensions self'"
    using apply_loop_grows [OF rest] e by auto
  have 2: "c \<in> extension_names acc \<and> c \<noteq> ''markdown.extensions.extra'' \<and> c \<noteq> ''mdx_math'' \<longrightarrow>
            c \<in> extensions self'"
    using apply_loop_keeps_other [OF rest] e by auto
  have 3: "(\<exists>pre'. pre = pre' @ [''remove_extra'']) \<longrightarrow>
            ''markdown.extensions.extra'' \<notin> extension_names acc \<and> ''mdx_math'' \<notin> extension_names acc"
  proof
    assume "\<exists>pre'. pre = pre' @ [''remove_extra'']"
    then obtain pre' where p: "pre = pre' @ [''remove_extra'']" ..
    with mid obtain a0 w0 where "apply_loop E pre' initial w = (Inr a0, w0)"
      and "apply_loop E [''remove_extra''] a0 w0 = (Inr acc, w1)"
      by (auto simp: apply_loop_append split: prod.splits sum.splits)
    then show "''markdown.extensions.extra'' \<notin> extension_names acc \<and> ''mdx_math'' \<notin> extension_names acc"
      by (auto simp: apply_extension_remove_extra)
  qed
  have 4: "\<forall>pre' t n cfg.
            pre = pre' @ [t] \<and> t \<noteq> ''mathjax'' \<and> t \<noteq> ''remove_extra'' \<and>
            split_extension_config E t = Inr (n, cfg) \<and>
            fst (canonicalize_extension_name E n) = Inr (Some c) \<longrightarrow>
            c \<in> extension_names acc"
  proof (intro allI impI)
    fix pre' t n cfg
    assume h: "pre = pre' @ [t] \<and> t \<noteq> ''mathjax'' \<and> t \<noteq> ''remove_extra'' \<and>
            split_extension_config E t = Inr (n, cfg) \<and>
            fst (canonicalize_extension_name E n) = Inr (Some c)"
    with mid obtain a0 w0 where p0: "apply_loop E pre' initial w = (Inr a0, w0)"
      and s: "apply_extension E t a0 w0 = (Inr acc, w1)"
      by (auto simp: apply_loop_append split: prod.splits sum.splits)
    from apply_loop_consistent [OF con p0] have c0: "cache_consistent E w0" .
    obtain r wr where res: "resolve E n w0 = (r, wr)" by (cases "resolve E n w0")
    with s h obtain r' where r': "r = Inr r'"
      by (cases r) (auto simp: apply_extension_other)
    from resolve_result [OF c0 res [unfolded r']] h have "r' = Some c" by simp
    with s h res r' show "c \<in> extension_names acc"
      by (auto simp: apply_extension_other)
  qed
  from 1 2 3 4 show ?thesis by blast
qed

lemma demo_loop_readd:
  "fst (apply_loop demo_env [''remove_extra'', ''extra''] initial empty_world) =
     Inr \<lparr>extension_names = {''markdown.extensions.extra''},
          extension_configs = [''markdown.extensions.extra'' \<mapsto> Map.empty]\<rparr>"
  by (simp add: initial_def empty_world_def apply_extension_remove_extra
        apply_extension_other demo_split resolve_fresh demo_canonicalize)

theorem remove_extra_in_encounter_order_witness:
  "cache_consistent demo_env empty_world \<and>
   completes (apply_extensions demo_env (new_markup [''remove_extra''] [] [''extra'']) empty_world) \<and>
   fst (apply_loop demo_env [''remove_extra'', ''extra''] initial empty_world) =
     Inr \<lparr>extension_names = {''markdown.extensions.extra''},
          extension_configs = [''markdown.extensions.extra'' \<mapsto> Map.empty]\<rparr> \<and>
   ''markdown.extensions.extra'' \<in>
     names_of (apply_extensions demo_env (new_markup [''remove_extra''] [] [''extra'']) empty_world)"
proof -
  let ?m = "new_markup [''remove_extra''] [] [''extra'']"
  obtain acc w1 where mid: "apply_loop demo_env [''remove_extra'', ''extra''] initial empty_world = (Inr acc, w1)"
    and acc: "acc = \<lparr>extension_names = {''markdown.extensions.extra''},
          extension_configs = [''markdown.extensions.extra'' \<mapsto> Map.empty]\<rparr>"
    using demo_loop_readd by (metis prod.collapse)
  have t: "requested_extensions ?m @ global_extensions ?m @ document_extensions ?m =
      [''remove_extra'', ''extra''] @ []"
    by (simp add: new_markup_def)
  have "fst (apply_extensions demo_env ?m empty_world) =
      Inr (?m\<lparr>extensions := extension_names acc, markup_extension_configs := extension_configs acc\<rparr>)"
    using mid by (simp add: apply_extensions_def new_markup_def)
  then obtain self' w' where r: "apply_extensions demo_env ?m empty_world = (Inr self', w')"
    by (metis prod.collapse)
  from remove_extra_in_encounter_order [OF demo_consistent t mid r, of "''markdown.extensions.extra''"] acc
  have "''markdown.extensions.extra'' \<in> extensions self'" by simp
  with r demo_consistent demo_loop_readd show ?thesis
    by (simp add: completes_def names_of_def)
qed

text \<open>
  C5 as stated keeps every re-added or previously added extension. The tokens
  \<^verbatim>\<open>remove_extra, extra\<close> end with the baseline bundle active; a further
  \<^verbatim>\<open>remove_extra\<close> removes what the token \<^verbatim>\<open>extra\<close> had added.
\<close>

theorem readded_baseline_removed_counterexample:
  "''markdown.extensions.extra'' \<in>
     names_of (apply_extensions demo_env (new_markup [''remove_extra'', ''extra''] [] []) empty_world) \<and>
   completes (apply_extensions demo_env
                (new_markup [''remove_extra'', ''extra'', ''remove_extra''] [] []) empty_world) \<and>
   ''markdown.extensions.extra'' \<notin>
     names_of (apply_extensions demo_env
                 (new_markup [''remove_extra'', ''extra'', ''remove_extra''] [] []) empty_world)"
  by (simp add: completes_def names_of_def apply_extensions_def new_markup_def initial_def
        empty_world_def apply_extension_remove_extra apply_extension_other demo_split
        resolve_fresh demo_canonicalize)

text \<open>The outcome of the loop does not depend on the warnings and imports recorded so far.\<close>

lemma resolve_same_cache:
  assumes "canonicalized_ext_names v = canonicalized_ext_names w"
  shows "fst (resolve E n v) = fst (resolve E n w) \<and>
         canonicalized_ext_names (snd (resolve E n v)) = canonicalized_ext_names (snd (resolve E n w))"
proof (cases "canonicalized_ext_names w n")
  case (Some c)
  with assms show ?thesis by (simp add: resolve_hit)
next
  case None
  with assms have "canonicalized_ext_names v n = None" by simp
  with None assms show ?thesis
    by (auto simp: resolve_miss split: sum.splits option.splits)
qed

lemma apply_extension_same_cache:
  assumes "canonicalized_ext_names v = canonicalized_ext_names w"
  shows "fst (apply_extension E t acc v) = fst (apply_extension E t acc w) \<and>
         canonicalized_ext_names (snd (apply_extension E t acc v)) =
           canonicalized_ext_names (snd (apply_extension E t acc w))"
proof (cases "t = ''mathjax'' \<or> t = ''remove_extra''")
  case True
  with assms show ?thesis
    by (auto simp: apply_extension_mathjax apply_extension_remove_extra)
next
  case False
  then have t: "t \<noteq> ''mathjax''" "t \<noteq> ''remove_extra''" by auto
  show ?thesis
  proof (cases "split_extension_config E t")
    case (Inl e)
    with assms t show ?thesis by (simp add: apply_extension_other)
  next
    case (Inr nc)
    obtain n cfg where nc: "nc = (n, cfg)" by (cases nc)
    obtain rv wv where v: "resolve E n v = (rv, wv)" by (cases "resolve E n v")
    obtain rw ww where w: "resolve E n w = (rw, ww)" by (cases "resolve E n w")
    from resolve_same_cache [OF assms, of E n] v w
    have "rv = rw" "canonicalized_ext_names wv = canonicalized_ext_names ww" by simp_all
    with t Inr nc v w show ?thesis
      by (auto simp: apply_extension_other split: sum.splits option.splits if_splits)
  qed
qed

lemma apply_loop_same_cache:
  "canonicalized_ext_names v = canonicalized_ext_names w \<Longrightarrow>
   fst (apply_loop E ts acc v) = fst (apply_loop E ts acc w) \<and>
   canonicalized_ext_names (snd (apply_loop E ts acc v)) =
     canonicalized_ext_names (snd (apply_loop E ts acc w))"
proof (induction ts arbitrary: acc v w)
  case Nil
  then show ?case by simp
next
  case (Cons t ts)
  obtain rv wv where v: "apply_extension E t acc v = (rv, wv)" by (cases "apply_extension E t acc v")
  obtain rw ww where w: "apply_extension E t acc w = (rw, ww)" by (cases "apply_extension E t acc w")
  from apply_extension_same_cache [OF Cons.prems, of E t acc] v w
  have eq: "rv = rw" "canonicalized_ext_names wv = canonicalized_ext_names ww" by simp_all
  show ?case
  proof (cases rw)
    case (Inl e)
    with v w eq show ?thesis by simp
  next
    case (Inr acc1)
    with v w eq Cons.IH [OF eq(2), of acc1] show ?thesis by simp
  qed
qed

lemma unresolved_not_cached:
  assumes "cache_consistent E w" and "fst (canonicalize_extension_name E n) = Inr None"
  shows "canonicalized_ext_names w n = None"
proof (cases "canonicalized_ext_names w n")
  case (Some c)
  with assms show ?thesis by (simp add: cache_consistent_def)
qed simp

lemma apply_extension_unknown:
  assumes con: "cache_consistent E w" and t: "t \<noteq> ''mathjax''" "t \<noteq> ''remove_extra''"
    and split: "split_extension_config E t = Inr (n, cfg)"
    and none: "fst (canonicalize_extension_name E n) = Inr None"
    and quiet: "\<not> filter_raises E (does_not_exist t)"
  shows "apply_extension E t acc w =
           (Inr acc, w\<lparr>import_calls := import_calls w @ [''markdown.extensions.'' @ n, n, ''mdx_'' @ n],
                      warned := warned w @ [does_not_exist t]\<rparr>)"
  using unresolved_not_cached [OF con none] t split none quiet
  by (simp add: apply_extension_other resolve_miss canonicalize_None_calls)

lemma apply_extension_unknown_raises:
  assumes con: "cache_consistent E w" and t: "t \<noteq> ''mathjax''" "t \<noteq> ''remove_extra''"
    and split: "split_extension_config E t = Inr (n, cfg)"
    and none: "fst (canonicalize_extension_name E n) = Inr None"
    and loud: "filter_raises E (does_not_exist t)"
  shows "fst (apply_extension E t acc w) = Inl (WarningRaised (does_not_exist t))"
  using unresolved_not_cached [OF con none] t split none loud
  by (simp add: apply_extension_other resolve_miss canonicalize_None_calls)

lemma resolve_warned: "warned (snd (resolve E n w)) = warned w"
  by (cases "canonicalized_ext_names w n")
     (auto simp: resolve_hit resolve_miss split: sum.splits option.splits)

lemma apply_extension_warned:
  "apply_extension E t acc w = (r, w') \<Longrightarrow> set (warned w) \<subseteq> set (warned w')"
proof (cases "t = ''mathjax'' \<or> t = ''remove_extra''")
  case True
  assume "apply_extension E t acc w = (r, w')"
  with True show ?thesis
    by (auto simp: apply_extension_mathjax apply_extension_remove_extra)
next
  case False
  assume a: "apply_extension E t acc w = (r, w')"
  from False have t: "t \<noteq> ''mathjax''" "t \<noteq> ''remove_extra''" by auto
  show ?thesis
  proof (cases "split_extension_config E t")
    case (Inl e)
    with a t show ?thesis by (simp add: apply_extension_other)
  next
    case (Inr nc)
    obtain n cfg where nc: "nc = (n, cfg)" by (cases nc)
    obtain r0 w0 where res: "resolve E n w = (r0, w0)" by (cases "resolve E n w")
    with resolve_warned [of E n w] have "warned w0 = warned w" by simp
    with a t Inr nc res show ?thesis
      by (auto simp: apply_extension_other split: sum.splits option.splits if_splits)
  qed
qed

lemma apply_loop_warned:
  "apply_loop E ts acc w = (r, w') \<Longrightarrow> set (warned w) \<subseteq> set (warned w')"
proof (induction ts arbitrary: acc w)
  case Nil
  then show ?case by simp
next
  case (Cons t ts)
  obtain r1 w1 where s: "apply_extension E t acc w = (r1, w1)"
    by (cases "apply_extension E t acc w")
  from apply_extension_warned [OF s] have g: "set (warned w) \<subseteq> set (warned w1)" .
  show ?case
  proof (cases r1)
    case (Inl e)
    with s Cons.prems g show ?thesis by simp
  next
    case (Inr acc1)
    with s Cons.prems have "apply_loop E ts acc1 w1 = (r, w')" by simp
    from Cons.IH [OF this] g show ?thesis by blast
  qed
qed

lemma run_results:
  "names_of (apply_extensions E self w) =
     (case fst (apply_loop E (requested_extensions self @ global_extensions self @ document_extensions self)
                  initial w) of Inl e \<Rightarrow> {} | Inr acc \<Rightarrow> extension_names acc)"
  "configs_of (apply_extensions E self w) =
     (case fst (apply_loop E (requested_extensions self @ global_extensions self @ document_extensions self)
                  initial w) of Inl e \<Rightarrow> Map.empty | Inr acc \<Rightarrow> extension_configs acc)"
  "completes (apply_extensions E self w) =
     (case fst (apply_loop E (requested_extensions self @ global_extensions self @ document_extensions self)
                  initial w) of Inl e \<Rightarrow> False | Inr acc \<Rightarrow> True)"
  "snd (apply_extensions E self w) =
     snd (apply_loop E (requested_extensions self @ global_extensions self @ document_extensions self)
            initial w)"
  by (auto simp: names_of_def configs_of_def completes_def apply_extensions_def
           split: prod.splits sum.splits)

text \<open>
  C6 (as the code has it). In a process whose cache agrees with the installation, let a
  token that is not a pseudo-extension parse to a name that the canonicalizer cannot
  resolve under any prefix; its step calls \<^verbatim>\<open>warnings.warn\<close> with the warning
  \<^verbatim>\<open>Extension "..." does not exist.\<close> of category \<^verbatim>\<open>ImportWarning\<close>. When the warning
  filters do not raise that warning, the step returns with the accumulator unchanged;
  the run over a token sequence containing the token and the run over the same sequence
  without it return the same names and the same configurations, or both fail; and when
  the run returns, the warning is among those passed to \<^verbatim>\<open>warnings.warn\<close>. When the
  filters raise the warning, the step ends with that exception and the run over a
  sequence containing the token does not return.
\<close>

theorem unknown_extension_skipped:
  assumes con: "cache_consistent E w"
    and t: "t \<noteq> ''mathjax''" "t \<noteq> ''remove_extra''"
    and split: "split_extension_config E t = Inr (n, cfg)"
    and none: "fst (canonicalize_extension_name E n) = Inr None"
    and tokens: "requested_extensions self @ global_extensions self @ document_extensions self =
                   pre @ t # post"
    and without: "requested_extensions self2 @ global_extensions self2 @ document_extensions self2 =
                   pre @ post"
  shows "(\<not> filter_raises E (does_not_exist t) \<longrightarrow>
            fst (apply_extension E t acc w) = Inr acc \<and>
            names_of (apply_extensions E self w) = names_of (apply_extensions E self2 w) \<and>
            configs_of (apply_extensions E self w) = configs_of (apply_extensions E self2 w) \<and>
            completes (apply_extensions E self w) = completes (apply_extensions E self2 w) \<and>
            (completes (apply_extensions E self w) \<longrightarrow>
               does_not_exist t \<in> set (warned (snd (apply_extensions E self w))))) \<and>
         (filter_raises E (does_not_exist t) \<longrightarrow>
            fst (apply_extension E t acc w) = Inl (WarningRaised (does_not_exist t)) \<and>
            \<not> completes (apply_extensions E self w))"
proof (intro conjI impI)
  assume quiet: "\<not> filter_raises E (does_not_exist t)"
  have skip: "fst (apply_extension E t acc w) = Inr acc"
    by (simp add: apply_extension_unknown [OF con t split none quiet])
  obtain r1 w1 where p: "apply_loop E pre initial w = (r1, w1)"
    by (cases "apply_loop E pre initial w")
  have same: "fst (apply_loop E (pre @ t # post) initial w) = fst (apply_loop E (pre @ post) initial w)"
  proof (cases r1)
    case (Inl e)
    with p show ?thesis by (simp add: apply_loop_append)
  next
    case (Inr a1)
    from apply_loop_consistent [OF con p] have c1: "cache_consistent E w1" .
    let ?w = "w1\<lparr>import_calls := import_calls w1 @ [''markdown.extensions.'' @ n, n, ''mdx_'' @ n],
                 warned := warned w1 @ [does_not_exist t]\<rparr>"
    have "canonicalized_ext_names ?w = canonicalized_ext_names w1" by simp
    from apply_loop_same_cache [OF this, of E post a1]
    have "fst (apply_loop E post a1 ?w) = fst (apply_loop E post a1 w1)" by simp
    with p Inr show ?thesis
      by (simp add: apply_loop_append apply_extension_unknown [OF c1 t split none quiet])
  qed
  have warn: "(case fst (apply_loop E (pre @ t # post) initial w) of Inl e \<Rightarrow> False | Inr a \<Rightarrow> True) \<longrightarrow>
       does_not_exist t \<in> set (warned (snd (apply_loop E (pre @ t # post) initial w)))"
  proof (cases r1)
    case (Inl e)
    with p show ?thesis by (simp add: apply_loop_append)
  next
    case (Inr a1)
    from apply_loop_consistent [OF con p] have c1: "cache_consistent E w1" .
    let ?w = "w1\<lparr>import_calls := import_calls w1 @ [''markdown.extensions.'' @ n, n, ''mdx_'' @ n],
                 warned := warned w1 @ [does_not_exist t]\<rparr>"
    have l: "apply_loop E (pre @ t # post) initial w = apply_loop E post a1 ?w"
      using p Inr by (simp add: apply_loop_append apply_extension_unknown [OF c1 t split none quiet])
    obtain r2 w2 where q: "apply_loop E post a1 ?w = (r2, w2)"
      by (cases "apply_loop E post a1 ?w")
    from apply_loop_warned [OF q] have "does_not_exist t \<in> set (warned w2)" by auto
    with l q show ?thesis by simp
  qed
  from skip show "fst (apply_extension E t acc w) = Inr acc" .
  from same show "names_of (apply_extensions E self w) = names_of (apply_extensions E self2 w)"
    by (simp add: run_results tokens without)
  from same show "configs_of (apply_extensions E self w) = configs_of (apply_extensions E self2 w)"
    by (simp add: run_results tokens without)
  from same show "completes (apply_extensions E self w) = completes (apply_extensions E self2 w)"
    by (simp add: run_results tokens without)
  assume "completes (apply_extensions E self w)"
  with warn show "does_not_exist t \<in> set (warned (snd (apply_extensions E self w)))"
    by (simp add: run_results tokens)
next
  assume loud: "filter_raises E (does_not_exist t)"
  show "fst (apply_extension E t acc w) = Inl (WarningRaised (does_not_exist t))"
    by (rule apply_extension_unknown_raises [OF con t split none loud])
  obtain r1 w1 where p: "apply_loop E pre initial w = (r1, w1)"
    by (cases "apply_loop E pre initial w")
  have "\<exists>e. fst (apply_loop E (pre @ t # post) initial w) = Inl e"
  proof (cases r1)
    case (Inl e)
    with p show ?thesis by (simp add: apply_loop_append)
  next
    case (Inr a1)
    from apply_loop_consistent [OF con p] have c1: "cache_consistent E w1" .
    obtain r2 w2 where s: "apply_extension E t a1 w1 = (r2, w2)"
      by (cases "apply_extension E t a1 w1")
    with apply_extension_unknown_raises [OF c1 t split none loud, of a1]
    have "r2 = Inl (WarningRaised (does_not_exist t))" by simp
    with p Inr s show ?thesis by (simp add: apply_loop_append)
  qed
  then show "\<not> completes (apply_extensions E self w)"
    by (auto simp: run_results tokens)
qed

lemma demo_quiet: "\<not> filter_raises demo_env x"
  by (simp add: demo_env_def)

lemma demo_run_unknown:
  "fst (apply_extensions demo_env (new_markup [''toc'', ''nonexistent123'', ''mathjax''] [] []) empty_world) =
     Inr ((new_markup [''toc'', ''nonexistent123'', ''mathjax''] [] [])
           \<lparr>extensions := {''markdown.extensions.toc'', ''markdown.extensions.extra'', ''mdx_math''},
            markup_extension_configs :=
              [''markdown.extensions.toc'' \<mapsto> Map.empty, ''mdx_math'' \<mapsto> mathjax_config]\<rparr>)"
  by (simp add: apply_extensions_def new_markup_def initial_def empty_world_def demo_quiet
        apply_extension_mathjax apply_extension_other demo_split resolve_fresh demo_canonicalize)

lemma strict_facts:
  "cache_consistent strict_env empty_world"
  "split_extension_config strict_env ''nonexistent123'' = Inr (''nonexistent123'', Map.empty)"
  "split_extension_config strict_env ''toc'' = Inr (''toc'', Map.empty)"
  "fst (canonicalize_extension_name strict_env ''nonexistent123'') = Inr None"
  "fst (canonicalize_extension_name strict_env ''toc'') = Inr (Some ''markdown.extensions.toc'')"
  "filter_raises strict_env x"
  by (simp_all add: strict_env_def demo_env_def cache_consistent_def empty_world_def
        split_extension_config_def parse_expression_def demo_parse_def solve_name_def
        canonicalize_extension_name_def prefixes_def demo_import_def caught_def)

theorem unknown_extension_skipped_witness:
  "cache_consistent demo_env empty_world \<and>
   split_extension_config demo_env ''nonexistent123'' = Inr (''nonexistent123'', Map.empty) \<and>
   fst (canonicalize_extension_name demo_env ''nonexistent123'') = Inr None \<and>
   \<not> filter_raises demo_env (does_not_exist ''nonexistent123'') \<and>
   completes (apply_extensions demo_env
                (new_markup [''toc'', ''nonexistent123'', ''mathjax''] [] []) empty_world) \<and>
   names_of (apply_extensions demo_env
               (new_markup [''toc'', ''nonexistent123'', ''mathjax''] [] []) empty_world) =
     names_of (apply_extensions demo_env (new_markup [''toc'', ''mathjax''] [] []) empty_world) \<and>
   configs_of (apply_extensions demo_env
                 (new_markup [''toc'', ''nonexistent123'', ''mathjax''] [] []) empty_world) =
     configs_of (apply_extensions demo_env (new_markup [''toc'', ''mathjax''] [] []) empty_world) \<and>
   does_not_exist ''nonexistent123'' \<in>
     set (warned (snd (apply_extensions demo_env
                         (new_markup [''toc'', ''nonexistent123'', ''mathjax''] [] []) empty_world))) \<and>
   cache_consistent strict_env empty_world \<and>
   split_extension_config strict_env ''nonexistent123'' = Inr (''nonexistent123'', Map.empty) \<and>
   fst (canonicalize_extension_name strict_env ''nonexistent123'') = Inr None \<and>
   filter_raises strict_env (does_not_exist ''nonexistent123'') \<and>
   fst (apply_extension strict_env ''nonexistent123'' initial empty_world) =
     Inl (WarningRaised (does_not_exist ''nonexistent123'')) \<and>
   \<not> completes (apply_extensions strict_env
                  (new_markup [''toc'', ''nonexistent123'', ''mathjax''] [] []) empty_world)"
proof -
  let ?m = "new_markup [''toc'', ''nonexistent123'', ''mathjax''] [] []"
  let ?m2 = "new_markup [''toc'', ''mathjax''] [] []"
  have t1: "requested_extensions ?m @ global_extensions ?m @ document_extensions ?m =
      [''toc''] @ ''nonexistent123'' # [''mathjax'']"
    by (simp add: new_markup_def)
  have t2: "requested_extensions ?m2 @ global_extensions ?m2 @ document_extensions ?m2 =
      [''toc''] @ [''mathjax'']"
    by (simp add: new_markup_def)
  have c: "completes (apply_extensions demo_env ?m empty_world)"
    using demo_run_unknown by (simp add: completes_def)
  have q: "\<not> filter_raises demo_env (does_not_exist ''nonexistent123'')"
    by (rule demo_quiet)
  have l: "filter_raises strict_env (does_not_exist ''nonexistent123'')"
    by (rule strict_facts(6))
  from unknown_extension_skipped [OF demo_consistent _ _ demo_split(4) demo_canonicalize(4) t1 t2, of initial]
    unknown_extension_skipped [OF strict_facts(1) _ _ strict_facts(2) strict_facts(4) t1 t2, of initial]
    c q l demo_consistent demo_split(4) demo_canonicalize(4) strict_facts(1,2,4)
  show ?thesis by simp
qed

text \<open>
  C6 as stated has the unknown name skipped in every run. In a process whose warning
  filters have the action \<^verbatim>\<open>error\<close>, the run without the unknown token returns and the
  run with it ends with the warning raised as an exception.
\<close>

theorem unknown_extension_fatal_counterexample:
  "completes (apply_extensions strict_env (new_markup [''toc'', ''mathjax''] [] []) empty_world) \<and>
   fst (apply_extensions strict_env
          (new_markup [''toc'', ''nonexistent123'', ''mathjax''] [] []) empty_world) =
     Inl (WarningRaised (does_not_exist ''nonexistent123''))"
  by (simp add: completes_def apply_extensions_def new_markup_def initial_def empty_world_def
        apply_extension_mathjax apply_extension_other strict_facts resolve_fresh)

section \<open>The directive scanner\<close>

lemma lower_required: "map ascii_lower ''required'' = ''required''"
  by code_simp

lemma lower_extensions: "map ascii_lower ''extensions: '' = ''extensions: ''"
  by code_simp

lemma match_ignorecase_Some:
  "match_ignorecase p s = Some r \<longleftrightarrow>
     (\<exists>w. s = w @ r \<and> map ascii_lower w = map ascii_lower p)"
proof (induction p arbitrary: s)
  case Nil
  then show ?case by auto
next
  case (Cons a p)
  show ?case
  proof (cases s)
    case Nil
    then show ?thesis by auto
  next
    case (Cons c cs)
    show ?thesis
    proof
      assume "match_ignorecase (a # p) s = Some r"
      with Cons have l: "ascii_lower c = ascii_lower a" and m: "match_ignorecase p cs = Some r"
        by (auto split: if_splits)
      from m Cons.IH obtain w where "cs = w @ r" "map ascii_lower w = map ascii_lower p" by blast
      with l Cons have "s = (c # w) @ r \<and> map ascii_lower (c # w) = map ascii_lower (a # p)" by simp
      then show "\<exists>w. s = w @ r \<and> map ascii_lower w = map ascii_lower (a # p)" by blast
    next
      assume "\<exists>w. s = w @ r \<and> map ascii_lower w = map ascii_lower (a # p)"
      then obtain w where w: "s = w @ r" "map ascii_lower w = map ascii_lower (a # p)" by blast
      then obtain c' w' where w': "w = c' # w'" by (cases w) auto
      with w Cons have "c = c'" "cs = w' @ r" "ascii_lower c' = ascii_lower a"
        "map ascii_lower w' = map ascii_lower p" by auto
      with Cons Cons.IH [of cs] show "match_ignorecase (a # p) s = Some r" by auto
    qed
  qed
qed

lemma extensions_re_match_unfold:
  "extensions_re_match s =
     (case match_ignorecase ''required'' s of
        None \<Rightarrow> None
      | Some [] \<Rightarrow> None
      | Some (c # s1) \<Rightarrow>
          (if c = CHR 0x0A then None
           else case match_ignorecase ''extensions: '' s1 of
                  None \<Rightarrow> None
                | Some s2 \<Rightarrow>
                    (if takeWhile (\<lambda>c. c \<noteq> CHR 0x0A) s2 = [] then None
                     else Some (takeWhile (\<lambda>c. c \<noteq> CHR 0x0A) s2))))"
  unfolding extensions_re_match_def Let_def ..

lemma extensions_re_match_Some:
  "extensions_re_match s = Some g \<longleftrightarrow>
     (\<exists>w1 c w2 s2. s = w1 @ c # w2 @ s2 \<and> map ascii_lower w1 = ''required'' \<and> c \<noteq> CHR 0x0A \<and>
        map ascii_lower w2 = ''extensions: '' \<and> g = takeWhile (\<lambda>c. c \<noteq> CHR 0x0A) s2 \<and> g \<noteq> [])"
  (is "?L \<longleftrightarrow> ?R")
proof
  assume l: ?L
  obtain r where r: "match_ignorecase ''required'' s = Some r"
    using l unfolding extensions_re_match_unfold
    by (cases "match_ignorecase ''required'' s") (simp_all del: match_ignorecase.simps)
  obtain c s1 where cs: "r = c # s1"
    using l r unfolding extensions_re_match_unfold
    by (cases r) (simp_all del: match_ignorecase.simps)
  have c: "c \<noteq> CHR 0x0A"
    using l r cs unfolding extensions_re_match_unfold
    by (cases "c = CHR 0x0A") (simp_all del: match_ignorecase.simps)
  obtain s2 where s2: "match_ignorecase ''extensions: '' s1 = Some s2"
    using l r cs c unfolding extensions_re_match_unfold
    by (cases "match_ignorecase ''extensions: '' s1") (simp_all del: match_ignorecase.simps)
  have g: "g = takeWhile (\<lambda>c. c \<noteq> CHR 0x0A) s2 \<and> g \<noteq> []"
    using l r cs c s2 unfolding extensions_re_match_unfold
    by (cases "takeWhile (\<lambda>c. c \<noteq> CHR 0x0A) s2 = []") (auto simp del: match_ignorecase.simps)
  from r [unfolded match_ignorecase_Some lower_required] cs
  obtain w1 where w1: "s = w1 @ c # s1" "map ascii_lower w1 = ''required''"
    by (elim exE conjE) simp
  from s2 [unfolded match_ignorecase_Some lower_extensions]
  obtain w2 where w2: "s1 = w2 @ s2" "map ascii_lower w2 = ''extensions: ''"
    by (elim exE conjE)
  from w1 w2 have "s = w1 @ c # w2 @ s2" by simp
  then show ?R using w1(2) w2(2) c g [THEN conjunct1] g [THEN conjunct2]
    by (intro exI conjI)
next
  assume ?R
  then obtain w1 c w2 s2 where a: "s = w1 @ c # w2 @ s2" "map ascii_lower w1 = ''required''"
    "c \<noteq> CHR 0x0A" "map ascii_lower w2 = ''extensions: ''"
    "g = takeWhile (\<lambda>c. c \<noteq> CHR 0x0A) s2" "g \<noteq> []" by (elim exE conjE)
  have m1: "match_ignorecase ''required'' s = Some (c # w2 @ s2)"
    unfolding match_ignorecase_Some lower_required using a(1,2) by (intro exI conjI)
  have m2: "match_ignorecase ''extensions: '' (w2 @ s2) = Some s2"
    unfolding match_ignorecase_Some lower_extensions using a(4) by (intro exI conjI) simp_all
  from a(3,5,6) show ?L
    unfolding extensions_re_match_unfold by (simp add: m1 m2 del: match_ignorecase.simps)
qed

lemma extensions_re_search_None:
  "extensions_re_search s = None \<longleftrightarrow> (\<forall>j \<le> length s. extensions_re_match (drop j s) = None)"
proof (induction s)
  case Nil
  then show ?case by simp
next
  case (Cons c cs)
  have "(\<forall>j \<le> length (c # cs). extensions_re_match (drop j (c # cs)) = None) \<longleftrightarrow>
        extensions_re_match (c # cs) = None \<and> (\<forall>j \<le> length cs. extensions_re_match (drop j cs) = None)"
    (is "?A \<longleftrightarrow> ?B")
  proof
    assume a: ?A
    then have "extensions_re_match (drop 0 (c # cs)) = None" by blast
    moreover have "\<forall>j \<le> length cs. extensions_re_match (drop j cs) = None"
    proof (intro allI impI)
      fix j assume "j \<le> length cs"
      with a have "extensions_re_match (drop (Suc j) (c # cs)) = None" by auto
      then show "extensions_re_match (drop j cs) = None" by simp
    qed
    ultimately show ?B by simp
  next
    assume b: ?B
    show ?A
    proof (intro allI impI)
      fix j assume "j \<le> length (c # cs)"
      with b show "extensions_re_match (drop j (c # cs)) = None"
        by (cases j) auto
    qed
  qed
  with Cons.IH show ?case by (auto split: option.splits)
qed

lemma extensions_re_search_Some:
  "extensions_re_search s = Some g \<Longrightarrow>
   \<exists>i \<le> length s. extensions_re_match (drop i s) = Some g \<and>
      (\<forall>j < i. extensions_re_match (drop j s) = None)"
proof (induction s)
  case Nil
  then show ?case by simp
next
  case (Cons c cs)
  show ?case
  proof (cases "extensions_re_match (c # cs)")
    case (Some g')
    with Cons.prems have "extensions_re_match (drop 0 (c # cs)) = Some g" by simp
    then show ?thesis by blast
  next
    case None
    with Cons.prems have "extensions_re_search cs = Some g" by simp
    from Cons.IH [OF this] obtain i where i: "i \<le> length cs" "extensions_re_match (drop i cs) = Some g"
      "\<forall>j < i. extensions_re_match (drop j cs) = None" by blast
    have "\<forall>j < Suc i. extensions_re_match (drop j (c # cs)) = None"
    proof (intro allI impI)
      fix j assume "j < Suc i"
      with i(3) None show "extensions_re_match (drop j (c # cs)) = None"
        by (cases j) auto
    qed
    with i(1,2) have "Suc i \<le> length (c # cs) \<and> extensions_re_match (drop (Suc i) (c # cs)) = Some g \<and>
      (\<forall>j < Suc i. extensions_re_match (drop j (c # cs)) = None)" by simp
    then show ?thesis by blast
  qed
qed

lemma extensions_re_search_leftmost:
  "extensions_re_match (drop i s) = Some g \<Longrightarrow> i \<le> length s \<Longrightarrow>
   \<forall>j < i. extensions_re_match (drop j s) = None \<Longrightarrow> extensions_re_search s = Some g"
proof (induction s arbitrary: i)
  case Nil
  then show ?case by simp
next
  case (Cons c cs)
  show ?case
  proof (cases i)
    case 0
    with Cons.prems show ?thesis by simp
  next
    case (Suc k)
    with Cons.prems have n: "extensions_re_match (c # cs) = None" by force
    have "\<forall>j < k. extensions_re_match (drop j cs) = None"
    proof (intro allI impI)
      fix j assume "j < k"
      with Suc Cons.prems(3) have "extensions_re_match (drop (Suc j) (c # cs)) = None" by blast
      then show "extensions_re_match (drop j cs) = None" by simp
    qed
    with Cons.IH [of k] Cons.prems(1,2) Suc have "extensions_re_search cs = Some g" by simp
    with n show ?thesis by simp
  qed
qed

lemma splitlines_from_first:
  "line \<noteq> [] \<or> s \<noteq> [] \<Longrightarrow>
   \<exists>rest. splitlines_from line s = (line @ takeWhile (\<lambda>c. \<not> is_linebreak c) s) # rest"
proof (induction line s rule: splitlines_from.induct)
  case (1 line)
  then show ?case by simp
next
  case (2 line c)
  then show ?case by simp
next
  case (3 line c d cs)
  show ?case
  proof (cases "is_linebreak c")
    case True
    then show ?thesis by simp
  next
    case False
    then have n: "\<not> (c = CHR 0x0D \<and> d = CHR 0x0A)" by (auto simp: is_linebreak_def)
    from "3.IH"(3) [OF n False] obtain rest where
      "splitlines_from (line @ [c]) (d # cs) =
         ((line @ [c]) @ takeWhile (\<lambda>c. \<not> is_linebreak c) (d # cs)) # rest"
      by auto
    with n False show ?thesis by simp
  qed
qed

lemma get_document_extensions_first_line:
  "text \<noteq> [] \<Longrightarrow>
   get_document_extensions text =
     (case extensions_re_search (takeWhile (\<lambda>c. \<not> is_linebreak c) text) of
        Some group1 \<Rightarrow> extension_name_re_findall group1
      | None \<Rightarrow> [])"
proof -
  assume "text \<noteq> []"
  with splitlines_from_first [of "[]" "text"] obtain rest where
    "splitlines text = takeWhile (\<lambda>c. \<not> is_linebreak c) text # rest"
    by (auto simp: splitlines_def)
  then show ?thesis by (simp add: get_document_extensions_def)
qed

lemma get_document_extensions_empty: "get_document_extensions [] = []"
  by (simp add: get_document_extensions_def splitlines_def)

lemma first_line_no_newline:
  "x \<in> set (takeWhile (\<lambda>c. \<not> is_linebreak c) text) \<Longrightarrow> x \<noteq> CHR 0x0A"
  by (auto dest!: set_takeWhileD simp: is_linebreak_def)

lemma takeWhile_all: "\<forall>x \<in> set xs. P x \<Longrightarrow> takeWhile P xs = xs"
  by (induction xs) auto

lemma matches_directive_search:
  "matches_directive line \<longleftrightarrow> extensions_re_search line \<noteq> None"
proof
  assume "matches_directive line"
  then obtain pre w1 c w2 rest where d: "line = pre @ w1 @ c # w2 @ rest"
    "map ascii_lower w1 = ''required''" "c \<noteq> CHR 0x0A" "map ascii_lower w2 = ''extensions: ''"
    "rest \<noteq> []" "hd rest \<noteq> CHR 0x0A"
    unfolding matches_directive_def by (elim exE conjE)
  from d(5,6) have "takeWhile (\<lambda>c. c \<noteq> CHR 0x0A) rest \<noteq> []" by (cases rest) auto
  with d(2-4) have "extensions_re_match (w1 @ c # w2 @ rest) = Some (takeWhile (\<lambda>c. c \<noteq> CHR 0x0A) rest)"
    unfolding extensions_re_match_Some by (intro exI conjI) simp_all
  with d(1) have "extensions_re_match (drop (length pre) line) \<noteq> None" by simp
  moreover from d(1) have "length pre \<le> length line" by simp
  ultimately show "extensions_re_search line \<noteq> None"
    unfolding extensions_re_search_None by (intro notI) (elim allE [of _ "length pre"], simp)
next
  assume "extensions_re_search line \<noteq> None"
  then obtain g where "extensions_re_search line = Some g" by (cases "extensions_re_search line") auto
  from extensions_re_search_Some [OF this] obtain i where
    i: "i \<le> length line" "extensions_re_match (drop i line) = Some g" by (elim exE conjE)
  from i(2) [unfolded extensions_re_match_Some] obtain w1 c w2 s2 where
    m: "drop i line = w1 @ c # w2 @ s2" "map ascii_lower w1 = ''required''" "c \<noteq> CHR 0x0A"
    "map ascii_lower w2 = ''extensions: ''" "g = takeWhile (\<lambda>c. c \<noteq> CHR 0x0A) s2" "g \<noteq> []"
    by (elim exE conjE)
  from m(5,6) have s2: "s2 \<noteq> []" "hd s2 \<noteq> CHR 0x0A" by (cases s2; auto split: if_splits)+
  have "line = take i line @ drop i line" by simp
  with m(1) have "line = take i line @ w1 @ c # w2 @ s2" by simp
  with m(2-4) s2 show "matches_directive line"
    unfolding matches_directive_def by (intro exI conjI)
qed

lemma paren_group_shape:
  "paren_group s = [] \<or>
   (\<exists>inner. inner \<noteq> [] \<and> CHR '')'' \<notin> set inner \<and> paren_group s = ''('' @ inner @ '')'')"
proof (cases s)
  case Nil
  then show ?thesis by (simp add: paren_group_def)
next
  case (Cons c s1)
  show ?thesis
  proof (cases "c = CHR ''('' \<and> takeWhile (\<lambda>c. c \<noteq> CHR '')'') s1 \<noteq> [] \<and> dropWhile (\<lambda>c. c \<noteq> CHR '')'') s1 \<noteq> []")
    case True
    have "CHR '')'' \<notin> set (takeWhile (\<lambda>c. c \<noteq> CHR '')'') s1)"
      by (auto dest: set_takeWhileD)
    with True Cons show ?thesis
      by (auto simp: paren_group_def Let_def)
  next
    case False
    with Cons show ?thesis by (auto simp: paren_group_def Let_def)
  qed
qed

lemma extension_name_re_match_token:
  assumes "extension_name_re_match s = Some tok"
  shows "regex_token tok"
proof -
  let ?run = "takeWhile is_name_char s"
  from assms have r: "?run \<noteq> []" and t: "tok = ?run @ paren_group (dropWhile is_name_char s)"
    by (auto simp: extension_name_re_match_def Let_def split: if_splits)
  have a: "list_all is_name_char ?run"
    by (auto simp: list_all_iff dest: set_takeWhileD)
  from paren_group_shape [of "dropWhile is_name_char s"] t
  have "tok = ?run \<or> (\<exists>inner. inner \<noteq> [] \<and> CHR '')'' \<notin> set inner \<and> tok = ?run @ ''('' @ inner @ '')'')"
    by auto
  with r a show ?thesis unfolding regex_token_def by (intro exI [of _ ?run] conjI)
qed

lemma extension_name_re_findall_tokens:
  "tok \<in> set (extension_name_re_findall s) \<Longrightarrow> regex_token tok"
proof (induction s rule: extension_name_re_findall.induct)
  case 1
  then show ?case by simp
next
  case (2 c cs)
  show ?case
  proof (cases "extension_name_re_match (c # cs)")
    case None
    with 2 show ?thesis by simp
  next
    case (Some t)
    with "2.prems" have "tok = t \<or> tok \<in> set (extension_name_re_findall (drop (length t) (c # cs)))"
      by simp
    with "2.IH"(2) [OF Some] extension_name_re_match_token [OF Some] show ?thesis by blast
  qed
qed

lemma takeWhile_first_line_idem:
  "takeWhile (\<lambda>c. \<not> is_linebreak c) (takeWhile (\<lambda>c. \<not> is_linebreak c) s) =
   takeWhile (\<lambda>c. \<not> is_linebreak c) s"
  by (rule takeWhile_idem)

lemma search_None_first_line_empty:
  "extensions_re_search [] = None"
  by (simp add: extensions_re_match_unfold)

lemma get_document_extensions_only_first_line:
  "get_document_extensions text =
   get_document_extensions (takeWhile (\<lambda>c. \<not> is_linebreak c) text)"
proof (cases "text = []")
  case True
  then show ?thesis by simp
next
  case False
  show ?thesis
  proof (cases "takeWhile (\<lambda>c. \<not> is_linebreak c) text = []")
    case True
    with False show ?thesis
      by (simp add: get_document_extensions_first_line get_document_extensions_empty
            search_None_first_line_empty del: extensions_re_search.simps)
  next
    case nonempty: False
    from get_document_extensions_first_line [OF False]
      get_document_extensions_first_line [OF nonempty]
    show ?thesis by (simp only: takeWhile_first_line_idem)
  qed
qed

lemma search_first_line_decomposition:
  assumes s: "extensions_re_search (takeWhile (\<lambda>c. \<not> is_linebreak c) text) = Some g"
  shows "\<exists>pre w1 c w2.
           takeWhile (\<lambda>c. \<not> is_linebreak c) text = pre @ w1 @ c # w2 @ g \<and>
           map ascii_lower w1 = ''required'' \<and> map ascii_lower w2 = ''extensions: '' \<and> g \<noteq> [] \<and>
           (\<forall>j < length pre.
              extensions_re_match (drop j (takeWhile (\<lambda>c. \<not> is_linebreak c) text)) = None)"
proof -
  let ?line = "takeWhile (\<lambda>c. \<not> is_linebreak c) text"
  from extensions_re_search_Some [OF s] obtain i where
    i: "i \<le> length ?line" "extensions_re_match (drop i ?line) = Some g"
       "\<forall>j < i. extensions_re_match (drop j ?line) = None" by (elim exE conjE)
  from i(2) [unfolded extensions_re_match_Some] obtain w1 c w2 s2 where
    m: "drop i ?line = w1 @ c # w2 @ s2" "map ascii_lower w1 = ''required''"
    "map ascii_lower w2 = ''extensions: ''" "g = takeWhile (\<lambda>c. c \<noteq> CHR 0x0A) s2" "g \<noteq> []"
    by (elim exE conjE)
  have l: "?line = take i ?line @ w1 @ c # w2 @ s2"
    using m(1) append_take_drop_id [of i ?line] by simp
  have "\<forall>x \<in> set s2. x \<noteq> CHR 0x0A"
  proof
    fix x assume "x \<in> set s2"
    then have "x \<in> set (take i ?line @ w1 @ c # w2 @ s2)" by simp
    with l have "x \<in> set ?line" by simp
    then show "x \<noteq> CHR 0x0A" by (rule first_line_no_newline)
  qed
  then have "takeWhile (\<lambda>c. c \<noteq> CHR 0x0A) s2 = s2" by (rule takeWhile_all)
  with m(4) have g: "g = s2" by simp
  from i(1) have len: "length (take i ?line) = i" by simp
  from l g have "?line = take i ?line @ w1 @ c # w2 @ g" by simp
  moreover from i(3) len
  have "\<forall>j < length (take i ?line). extensions_re_match (drop j ?line) = None" by simp
  ultimately show ?thesis using m(2,3,5) by (intro exI conjI)
qed

lemma findall_skip:
  "list_all (\<lambda>c. \<not> is_name_char c) gap \<Longrightarrow>
   extension_name_re_findall (gap @ x) = extension_name_re_findall x"
proof (induction gap)
  case Nil
  then show ?case by simp
next
  case (Cons c gap)
  then have "extension_name_re_match (c # gap @ x) = None"
    by (simp add: extension_name_re_match_def)
  with Cons show ?case by simp
qed

lemma paren_group_prefix: "\<exists>r. s = paren_group s @ r"
proof (cases s)
  case Nil
  then show ?thesis by (simp add: paren_group_def)
next
  case (Cons c s1)
  let ?inner = "takeWhile (\<lambda>c. c \<noteq> CHR '')'') s1"
  let ?s2 = "dropWhile (\<lambda>c. c \<noteq> CHR '')'') s1"
  show ?thesis
  proof (cases "c = CHR ''('' \<and> ?inner \<noteq> [] \<and> ?s2 \<noteq> []")
    case True
    then have "hd ?s2 = CHR '')''" using hd_dropWhile [of "\<lambda>c. c \<noteq> CHR '')''" s1] by simp
    with True have "?s2 = CHR '')'' # tl ?s2" by (cases ?s2) auto
    then have "s1 = ?inner @ CHR '')'' # tl ?s2"
      using takeWhile_dropWhile_id [of "\<lambda>c. c \<noteq> CHR '')''" s1] by simp
    then have "c # s1 = (c # ?inner @ '')'') @ tl ?s2" by simp
    moreover from True have "paren_group (c # s1) = c # ?inner @ '')''"
      by (simp add: paren_group_def Let_def)
    ultimately show ?thesis using Cons by metis
  next
    case False
    with Cons have "paren_group s = []" by (auto simp: paren_group_def Let_def)
    then show ?thesis by simp
  qed
qed

lemma match_prefix:
  assumes "extension_name_re_match x = Some m"
  shows "\<exists>r. x = m @ r"
proof -
  from assms have m: "m = takeWhile is_name_char x @ paren_group (dropWhile is_name_char x)"
    by (auto simp: extension_name_re_match_def Let_def split: if_splits)
  from paren_group_prefix [of "dropWhile is_name_char x"] obtain r where
    "dropWhile is_name_char x = paren_group (dropWhile is_name_char x) @ r" ..
  then have "x = (takeWhile is_name_char x @ paren_group (dropWhile is_name_char x)) @ r"
    using takeWhile_dropWhile_id [of is_name_char x] by simp
  with m show ?thesis by blast
qed

lemma takeWhile_longest:
  "list_all P run \<Longrightarrow> length run \<le> length (takeWhile P (run @ r))"
  by (induction run) auto

lemma takeWhile_run_stop:
  "list_all P run \<Longrightarrow> \<not> P c \<Longrightarrow> takeWhile P (run @ c # r) = run"
  by (induction run) auto

lemma dropWhile_run_stop:
  "list_all P run \<Longrightarrow> \<not> P c \<Longrightarrow> dropWhile P (run @ c # r) = c # r"
  by (induction run) auto

lemma open_paren_no_name_char: "\<not> is_name_char CHR ''(''"
  by code_simp

lemma paren_group_found:
  assumes "inner \<noteq> []" and "CHR '')'' \<notin> set inner"
  shows "paren_group (CHR ''('' # inner @ CHR '')'' # r) = CHR ''('' # inner @ '')''"
proof -
  from assms(2) have a: "list_all (\<lambda>c. c \<noteq> CHR '')'') inner" by (auto simp: list_all_iff)
  have t: "takeWhile (\<lambda>c. c \<noteq> CHR '')'') (inner @ CHR '')'' # r) = inner"
    by (rule takeWhile_run_stop [OF a]) simp
  have d: "dropWhile (\<lambda>c. c \<noteq> CHR '')'') (inner @ CHR '')'' # r) = CHR '')'' # r"
    by (rule dropWhile_run_stop [OF a]) simp
  from assms(1) show ?thesis
    by (simp add: paren_group_def Let_def t d)
qed

lemma match_longest:
  assumes m: "extension_name_re_match x = Some m" and t: "regex_token t" and x: "x = t @ r"
  shows "length t \<le> length m"
proof -
  from m have mm: "m = takeWhile is_name_char x @ paren_group (dropWhile is_name_char x)"
    by (auto simp: extension_name_re_match_def Let_def split: if_splits)
  from t obtain run where run: "run \<noteq> []" "list_all is_name_char run"
    and shape: "t = run \<or> (\<exists>inner. inner \<noteq> [] \<and> CHR '')'' \<notin> set inner \<and> t = run @ ''('' @ inner @ '')'')"
    unfolding regex_token_def by (elim exE conjE)
  from shape show ?thesis
  proof
    assume "t = run"
    with x run(2) have "length t \<le> length (takeWhile is_name_char x)"
      by (simp add: takeWhile_longest)
    with mm show ?thesis by simp
  next
    assume "\<exists>inner. inner \<noteq> [] \<and> CHR '')'' \<notin> set inner \<and> t = run @ ''('' @ inner @ '')''"
    then obtain inner where i: "inner \<noteq> []" "CHR '')'' \<notin> set inner" "t = run @ ''('' @ inner @ '')''"
      by (elim exE conjE)
    from i(3) x have xx: "x = run @ CHR ''('' # inner @ CHR '')'' # r" by simp
    have tw: "takeWhile is_name_char x = run"
      unfolding xx by (rule takeWhile_run_stop [OF run(2) open_paren_no_name_char])
    have dw: "dropWhile is_name_char x = CHR ''('' # inner @ CHR '')'' # r"
      unfolding xx by (rule dropWhile_run_stop [OF run(2) open_paren_no_name_char])
    from mm tw dw paren_group_found [OF i(1,2), of r] i(3) have "m = t" by simp
    then show ?thesis by simp
  qed
qed

lemma regex_token_starts:
  assumes "regex_token t"
  shows "takeWhile is_name_char (t @ r) \<noteq> []"
proof -
  from assms obtain run where run: "run \<noteq> []" "list_all is_name_char run"
    and shape: "t = run \<or> (\<exists>inner. inner \<noteq> [] \<and> CHR '')'' \<notin> set inner \<and> t = run @ ''('' @ inner @ '')'')"
    unfolding regex_token_def by (elim exE conjE)
  from run obtain c cs where c: "run = c # cs" "is_name_char c" by (cases run) auto
  from shape c have "\<exists>u. t @ r = c # u" by auto
  with c(2) show ?thesis by auto
qed

lemma findall_longest_first:
  assumes gap: "list_all (\<lambda>c. \<not> is_name_char c) gap"
    and tok: "regex_token tok"
    and longest: "\<forall>t. regex_token t \<and> (\<exists>r. tok @ rest = t @ r) \<longrightarrow> length t \<le> length tok"
  shows "extension_name_re_findall (gap @ tok @ rest) = tok # extension_name_re_findall rest"
proof -
  let ?x = "tok @ rest"
  from regex_token_starts [OF tok, of rest] obtain m where m: "extension_name_re_match ?x = Some m"
    by (auto simp: extension_name_re_match_def Let_def)
  from match_prefix [OF m] obtain r where r: "?x = m @ r" ..
  have "regex_token m" by (rule extension_name_re_match_token [OF m])
  with longest r have "length m \<le> length tok" by blast
  moreover from match_longest [OF m tok refl] have "length tok \<le> length m" .
  ultimately have "length m = length tok" by simp
  with r have mt: "m = tok" by (metis append_eq_append_conv)
  from regex_token_starts [OF tok, of rest] obtain c cs where x: "?x = c # cs"
    by (cases ?x) auto
  from m mt have "extension_name_re_match (c # cs) = Some tok" by (simp add: x)
  then have "extension_name_re_findall (c # cs) =
      tok # extension_name_re_findall (drop (length tok) (c # cs))" by simp
  moreover have "drop (length tok) (c # cs) = rest" by (simp add: x [symmetric])
  ultimately have "extension_name_re_findall ?x = tok # extension_name_re_findall rest"
    by (simp add: x)
  with findall_skip [OF gap, of ?x] show ?thesis by simp
qed

lemma findall_no_name_char:
  "list_all (\<lambda>c. \<not> is_name_char c) s \<Longrightarrow> extension_name_re_findall s = []"
  using findall_skip [of s "[]"] by simp

lemma longest_at_end:
  "\<forall>t. regex_token t \<and> (\<exists>r. tok @ [] = t @ r) \<longrightarrow> length t \<le> length tok"
proof (intro allI impI)
  fix t assume "regex_token t \<and> (\<exists>r. tok @ [] = t @ r)"
  then obtain r where "tok @ [] = t @ r" by (elim conjE exE)
  from arg_cong [OF this, of length] show "length t \<le> length tok" by simp
qed

text \<open>
  C8 (as the code has it). The scanner looks at the first line only, the text up to the
  first line boundary: the result for a text is the result for its first line. An empty
  text gives no tokens, and so does a text whose first line does not match the directive
  pattern. When the first line matches, it is some prefix, \<^verbatim>\<open>required\<close>, one character,
  \<^verbatim>\<open>extensions: \<close> (in any mix of cases) and a non-empty rest, and the result is the
  list of tokens found in that rest. Every token returned is a match of the regular
  expression: a run of name characters, optionally followed by a parenthesized part that
  ends at the first closing parenthesis. The tokens are the leftmost, longest,
  non-overlapping matches: a text without name characters has none; and when a text
  consists of a stretch without name characters, then a match that is at least as long
  as every other match starting at that place, then further text, its tokens are that
  match followed by the tokens of the further text.
\<close>

theorem directive_scanner_first_line:
  "(text = [] \<longrightarrow> get_document_extensions text = []) \<and>
   (text \<noteq> [] \<and> \<not> matches_directive (takeWhile (\<lambda>c. \<not> is_linebreak c) text) \<longrightarrow>
      get_document_extensions text = []) \<and>
   (text \<noteq> [] \<and> matches_directive (takeWhile (\<lambda>c. \<not> is_linebreak c) text) \<longrightarrow>
      (\<exists>pre w1 c w2 rest.
         takeWhile (\<lambda>c. \<not> is_linebreak c) text = pre @ w1 @ c # w2 @ rest \<and>
         map ascii_lower w1 = ''required'' \<and> map ascii_lower w2 = ''extensions: '' \<and> rest \<noteq> [] \<and>
         get_document_extensions text = extension_name_re_findall rest)) \<and>
   list_all regex_token (get_document_extensions text) \<and>
   get_document_extensions text =
     get_document_extensions (takeWhile (\<lambda>c. \<not> is_linebreak c) text) \<and>
   (list_all (\<lambda>c. \<not> is_name_char c) s \<longrightarrow> extension_name_re_findall s = []) \<and>
   (list_all (\<lambda>c. \<not> is_name_char c) gap \<and> regex_token tok \<and>
    (\<forall>t. regex_token t \<and> (\<exists>r. tok @ after = t @ r) \<longrightarrow> length t \<le> length tok) \<longrightarrow>
      extension_name_re_findall (gap @ tok @ after) = tok # extension_name_re_findall after)"
proof (intro conjI impI)
  assume "text = []"
  then show "get_document_extensions text = []"
    by (simp add: get_document_extensions_empty)
next
  assume a: "text \<noteq> [] \<and> \<not> matches_directive (takeWhile (\<lambda>c. \<not> is_linebreak c) text)"
  then have "extensions_re_search (takeWhile (\<lambda>c. \<not> is_linebreak c) text) = None"
    by (simp add: matches_directive_search)
  with a show "get_document_extensions text = []"
    by (simp add: get_document_extensions_first_line)
next
  assume a: "text \<noteq> [] \<and> matches_directive (takeWhile (\<lambda>c. \<not> is_linebreak c) text)"
  then obtain g where g: "extensions_re_search (takeWhile (\<lambda>c. \<not> is_linebreak c) text) = Some g"
    by (auto simp: matches_directive_search)
  with a have r: "get_document_extensions text = extension_name_re_findall g"
    by (simp add: get_document_extensions_first_line)
  from search_first_line_decomposition [OF g] obtain pre w1 c w2 where
    "takeWhile (\<lambda>c. \<not> is_linebreak c) text = pre @ w1 @ c # w2 @ g"
    "map ascii_lower w1 = ''required''" "map ascii_lower w2 = ''extensions: ''" "g \<noteq> []"
    by (elim exE conjE)
  with r show "\<exists>pre w1 c w2 rest.
         takeWhile (\<lambda>c. \<not> is_linebreak c) text = pre @ w1 @ c # w2 @ rest \<and>
         map ascii_lower w1 = ''required'' \<and> map ascii_lower w2 = ''extensions: '' \<and> rest \<noteq> [] \<and>
         get_document_extensions text = extension_name_re_findall rest"
    by (intro exI conjI)
next
  show "list_all regex_token (get_document_extensions text)"
  proof (cases "text = []")
    case True
    then show ?thesis by (simp add: get_document_extensions_empty)
  next
    case False
    then show ?thesis
      by (auto simp: get_document_extensions_first_line list_all_iff
               dest: extension_name_re_findall_tokens split: option.splits)
  qed
next
  show "get_document_extensions text =
     get_document_extensions (takeWhile (\<lambda>c. \<not> is_linebreak c) text)"
    by (rule get_document_extensions_only_first_line)
next
  assume "list_all (\<lambda>c. \<not> is_name_char c) s"
  then show "extension_name_re_findall s = []" by (rule findall_no_name_char)
next
  assume "list_all (\<lambda>c. \<not> is_name_char c) gap \<and> regex_token tok \<and>
    (\<forall>t. regex_token t \<and> (\<exists>r. tok @ after = t @ r) \<longrightarrow> length t \<le> length tok)"
  then show "extension_name_re_findall (gap @ tok @ after) = tok # extension_name_re_findall after"
    by (intro findall_longest_first) (elim conjE, assumption)+
qed

lemma common_suffix:
  assumes "a @ g = b @ r" and "length r \<le> length g"
  shows "\<exists>u. g = u @ r"
proof -
  from assms(1) obtain us where "a = b @ us \<and> us @ g = r \<or> a @ us = b \<and> g = us @ r"
    unfolding append_eq_append_conv2 by blast
  then show ?thesis
  proof
    assume h: "a = b @ us \<and> us @ g = r"
    with assms(2) have "us = []" by auto
    with h have "g = [] @ r" by simp
    then show ?thesis by blast
  next
    assume "a @ us = b \<and> g = us @ r"
    then show ?thesis by blast
  qed
qed

lemma length_required: "map ascii_lower w = ''required'' \<Longrightarrow> length w = 8"
  by (drule arg_cong [where f = length]) simp

lemma length_extensions: "map ascii_lower w = ''extensions: '' \<Longrightarrow> length w = 12"
  by (drule arg_cong [where f = length]) simp

text \<open>
  C9. Let the first line be any prefix, then \<^verbatim>\<open>required\<close>, any one character,
  \<^verbatim>\<open>extensions: \<close> (in any mix of cases), then a non-empty rest. The directive is
  recognized: the search succeeds, and the tokens are those of a text that ends with the
  rest; when the pattern does not match at an earlier position of the line, they are
  the tokens of the rest itself.
\<close>

theorem directive_anywhere_in_first_line:
  assumes line: "takeWhile (\<lambda>c. \<not> is_linebreak c) text = pre @ w1 @ c # w2 @ rest"
    and w1: "map ascii_lower w1 = ''required''"
    and w2: "map ascii_lower w2 = ''extensions: ''"
    and rest: "rest \<noteq> []"
  shows "(\<exists>u. extensions_re_search (takeWhile (\<lambda>c. \<not> is_linebreak c) text) = Some (u @ rest) \<and>
              get_document_extensions text = extension_name_re_findall (u @ rest)) \<and>
         (list_all (\<lambda>j. extensions_re_match (drop j (takeWhile (\<lambda>c. \<not> is_linebreak c) text)) = None)
            [0..<length pre] \<longrightarrow>
          get_document_extensions text = extension_name_re_findall rest)"
proof -
  let ?line = "takeWhile (\<lambda>c. \<not> is_linebreak c) text"
  from line have ne: "text \<noteq> []" by auto
  have nl: "\<And>x. x \<in> set ?line \<Longrightarrow> x \<noteq> CHR 0x0A" by (rule first_line_no_newline)
  have c: "c \<noteq> CHR 0x0A" by (rule nl) (simp add: line)
  have "\<forall>x \<in> set rest. x \<noteq> CHR 0x0A"
  proof
    fix x assume "x \<in> set rest"
    then have "x \<in> set ?line" by (simp add: line)
    then show "x \<noteq> CHR 0x0A" by (rule nl)
  qed
  then have tw: "takeWhile (\<lambda>c. c \<noteq> CHR 0x0A) rest = rest" by (rule takeWhile_all)
  have "extensions_re_match (w1 @ c # w2 @ rest) = Some rest"
    unfolding extensions_re_match_Some
  proof (intro exI conjI)
    show "w1 @ c # w2 @ rest = w1 @ c # w2 @ rest" by (rule refl)
    show "map ascii_lower w1 = ''required''" by (rule w1)
    show "c \<noteq> CHR 0x0A" by (rule c)
    show "map ascii_lower w2 = ''extensions: ''" by (rule w2)
    show "rest = takeWhile (\<lambda>c. c \<noteq> CHR 0x0A) rest" by (rule tw [symmetric])
    show "rest \<noteq> []" by (rule rest)
  qed
  with line have here: "extensions_re_match (drop (length pre) ?line) = Some rest" by simp
  from line have le: "length pre \<le> length ?line" by simp
  have "extensions_re_search ?line \<noteq> None"
    unfolding extensions_re_search_None using here le
    by (intro notI) (elim allE [of _ "length pre"], simp)
  then obtain g where g: "extensions_re_search ?line = Some g"
    by (cases "extensions_re_search ?line") auto
  from search_first_line_decomposition [OF g] obtain pre' w1' c' w2' where
    d: "?line = pre' @ w1' @ c' # w2' @ g" "map ascii_lower w1' = ''required''"
       "map ascii_lower w2' = ''extensions: ''"
       "\<forall>j < length pre'. extensions_re_match (drop j ?line) = None"
    by (elim exE conjE)
  from d(4) here have p: "length pre' \<le> length pre"
    by (cases "length pre < length pre'") auto
  have "length ?line = length pre' + 21 + length g"
    using arg_cong [OF d(1), of length] length_required [OF d(2)] length_extensions [OF d(3)] by simp
  moreover have "length ?line = length pre + 21 + length rest"
    using arg_cong [OF line, of length] length_required [OF w1] length_extensions [OF w2] by simp
  ultimately have "length rest \<le> length g" using p by simp
  moreover have "(pre' @ w1' @ c' # w2') @ g = (pre @ w1 @ c # w2) @ rest"
    using d(1) line by simp
  ultimately obtain u where u: "g = u @ rest" using common_suffix by blast
  from g ne have "get_document_extensions text = extension_name_re_findall g"
    by (simp add: get_document_extensions_first_line)
  with g u have first: "\<exists>u. extensions_re_search ?line = Some (u @ rest) \<and>
              get_document_extensions text = extension_name_re_findall (u @ rest)"
    by blast
  have second: "list_all (\<lambda>j. extensions_re_match (drop j ?line) = None) [0..<length pre] \<longrightarrow>
          get_document_extensions text = extension_name_re_findall rest"
  proof
    assume "list_all (\<lambda>j. extensions_re_match (drop j ?line) = None) [0..<length pre]"
    then have "\<forall>j < length pre. extensions_re_match (drop j ?line) = None"
      by (simp add: list_all_iff)
    from extensions_re_search_leftmost [OF here le this] ne
    show "get_document_extensions text = extension_name_re_findall rest"
      by (simp add: get_document_extensions_first_line)
  qed
  from first second show ?thesis by (rule conjI)
qed

lemma header_first_line:
  "takeWhile (\<lambda>c. \<not> is_linebreak c)
     (''<!--- Type: markdown; Required extensions: mathjax --->'' @ [CHR 0x0A, CHR 0x0A] @ ''$i_1$ some text'') =
   ''<!--- Type: markdown; '' @ ''Required'' @ CHR '' '' # ''extensions: '' @ ''mathjax --->''"
  by code_simp

lemma header_leftmost:
  "list_all (\<lambda>j. extensions_re_match (drop j (takeWhile (\<lambda>c. \<not> is_linebreak c)
     (''<!--- Type: markdown; Required extensions: mathjax --->'' @ [CHR 0x0A, CHR 0x0A] @ ''$i_1$ some text''))) = None)
     [0..<length ''<!--- Type: markdown; '']"
  by code_simp

lemma header_tokens: "extension_name_re_findall ''mathjax --->'' = [''mathjax'']"
  by code_simp

lemma lower_Required: "map ascii_lower ''Required'' = ''required''"
  by code_simp

theorem directive_anywhere_in_first_line_witness:
  "takeWhile (\<lambda>c. \<not> is_linebreak c)
     (''<!--- Type: markdown; Required extensions: mathjax --->'' @ [CHR 0x0A, CHR 0x0A] @ ''$i_1$ some text'') =
     ''<!--- Type: markdown; '' @ ''Required'' @ CHR '' '' # ''extensions: '' @ ''mathjax --->'' \<and>
   map ascii_lower ''Required'' = ''required'' \<and>
   map ascii_lower ''extensions: '' = ''extensions: '' \<and>
   get_document_extensions
     (''<!--- Type: markdown; Required extensions: mathjax --->'' @ [CHR 0x0A, CHR 0x0A] @ ''$i_1$ some text'') =
     [''mathjax'']"
proof -
  have "''mathjax --->'' \<noteq> []" by simp
  from directive_anywhere_in_first_line [OF header_first_line lower_Required lower_extensions this]
    header_leftmost
  have "get_document_extensions
     (''<!--- Type: markdown; Required extensions: mathjax --->'' @ [CHR 0x0A, CHR 0x0A] @ ''$i_1$ some text'') =
     extension_name_re_findall ''mathjax --->''"
    by (elim conjE impE)
  with header_first_line lower_Required lower_extensions header_tokens show ?thesis
    by (simp only: simp_thms)
qed

lemma plain_no_directive:
  "\<not> matches_directive (takeWhile (\<lambda>c. \<not> is_linebreak c) ''Some text here.'')"
  unfolding matches_directive_search by code_simp

lemma meta_directive:
  "matches_directive (takeWhile (\<lambda>c. \<not> is_linebreak c)
     (''Required-Extensions: toc(permalink=True), meta'' @ [CHR 0x0A] @ ''Title: Hello, world!''))"
  unfolding matches_directive_search by code_simp

lemma meta_tokens:
  "get_document_extensions
     (''Required-Extensions: toc(permalink=True), meta'' @ [CHR 0x0A] @ ''Title: Hello, world!'') =
   [''toc(permalink=True)'', ''meta'']"
  by code_simp

theorem directive_scanner_first_line_witness:
  "get_document_extensions [] = [] \<and>
   ''Some text here.'' \<noteq> [] \<and>
   \<not> matches_directive (takeWhile (\<lambda>c. \<not> is_linebreak c) ''Some text here.'') \<and>
   get_document_extensions ''Some text here.'' = [] \<and>
   matches_directive (takeWhile (\<lambda>c. \<not> is_linebreak c)
     (''Required-Extensions: toc(permalink=True), meta'' @ [CHR 0x0A] @ ''Title: Hello, world!'')) \<and>
   get_document_extensions
     (''Required-Extensions: toc(permalink=True), meta'' @ [CHR 0x0A] @ ''Title: Hello, world!'') =
     [''toc(permalink=True)'', ''meta''] \<and>
   list_all regex_token [''toc(permalink=True)'', ''meta''] \<and>
   list_all (\<lambda>c. \<not> is_name_char c) '', '' \<and>
   extension_name_re_findall '', '' = [] \<and>
   extension_name_re_findall ('', '' @ ''meta'' @ []) = ''meta'' # extension_name_re_findall []"
proof -
  have a: "get_document_extensions [] = []"
    by (rule directive_scanner_first_line [of "[]", THEN conjunct1, THEN mp, OF refl])
  have n: "''Some text here.'' \<noteq> []" by simp
  have b: "get_document_extensions ''Some text here.'' = []"
    by (rule directive_scanner_first_line [of "''Some text here.''", THEN conjunct2, THEN conjunct1,
          THEN mp, OF conjI [OF n plain_no_directive]])
  have c: "list_all regex_token
     (get_document_extensions
        (''Required-Extensions: toc(permalink=True), meta'' @ [CHR 0x0A] @ ''Title: Hello, world!''))"
    by (rule directive_scanner_first_line
          [of "''Required-Extensions: toc(permalink=True), meta'' @ [CHR 0x0A] @ ''Title: Hello, world!''",
           THEN conjunct2, THEN conjunct2, THEN conjunct2, THEN conjunct1])
  have g: "list_all (\<lambda>c. \<not> is_name_char c) '', ''" by code_simp
  have k: "regex_token ''meta''"
    using c [unfolded meta_tokens] by simp
  have d: "extension_name_re_findall '', '' = []"
    by (rule directive_scanner_first_line
          [of _ "'', ''", THEN conjunct2, THEN conjunct2, THEN conjunct2, THEN conjunct2,
           THEN conjunct2, THEN conjunct1, THEN mp, OF g])
  have e: "extension_name_re_findall ('', '' @ ''meta'' @ []) = ''meta'' # extension_name_re_findall []"
    by (rule directive_scanner_first_line
          [of _ _ "'', ''" "''meta''" "[]", THEN conjunct2, THEN conjunct2, THEN conjunct2,
           THEN conjunct2, THEN conjunct2, THEN conjunct2, THEN mp,
           OF conjI [OF g conjI [OF k longest_at_end]]])
  from a n plain_no_directive b meta_directive meta_tokens c [unfolded meta_tokens] g d e
  show ?thesis by (intro conjI)
qed

text \<open>
  C8 as stated has every token consist of a name and, optionally, a parenthesized
  argument list. The parenthesized part of a match ends at the first closing
  parenthesis: of \<^verbatim>\<open>toc(a=(1,2))\<close> the scanner returns \<^verbatim>\<open>toc(a=(1,2)\<close>, whose
  parentheses do not balance.
\<close>

theorem unbalanced_token_counterexample:
  "get_document_extensions ''Required-Extensions: toc(a=(1,2)), meta'' =
     [''toc(a=(1,2)'', ''meta''] \<and>
   \<not> spec_token ''toc(a=(1,2)''"
  by code_simp

end
